theory Spec2Isabelle
  imports Main
begin

section \<open>CardStock: the tenancy schema, its row policies and its privileged procedures\<close>

text \<open>
  The model follows the SQL migrations: the tables of
  \<^verbatim>\<open>20260209000001_initial_schema.sql\<close>, the functions as last replaced by
  \<^verbatim>\<open>20260209000002_security_fixes.sql\<close> and \<^verbatim>\<open>20260209000003_fix_leave_org.sql\<close>,
  and the \<^verbatim>\<open>inventory_images\<close> policies as last replaced by
  \<^verbatim>\<open>20260209000004_perf_fixes.sql\<close>.

  A table is the list of its rows, a nullable column is an \<open>option\<close>, a
  \<^verbatim>\<open>RAISE EXCEPTION\<close> or a violated constraint is an \<open>error\<close> value, and a
  procedure is a function from the database to a result and the database it
  leaves behind; \<open>transaction\<close> restores the database when the procedure raised.
\<close>

subsection \<open>Column types\<close>

type_synonym uuid = nat
type_synonym timestamptz = nat
  \<comment> \<open>seconds\<close>
type_synonym numeric = int
  \<comment> \<open>a \<^verbatim>\<open>DECIMAL(10,2)\<close> amount, counted in hundredths\<close>

datatype role_enum = Owner | Admin | Member

datatype inventory_status_enum = Available | Reserved | Sold

subsection \<open>Tables\<close>

text \<open>\<^verbatim>\<open>auth.users\<close>: only \<^verbatim>\<open>id\<close> and \<^verbatim>\<open>email\<close> are read by this schema.\<close>

record auth_user =
  au_id :: uuid
  au_email :: "string option"

record organization =
  o_id :: uuid
  o_name :: string
  o_slug :: string
  o_created_at :: timestamptz
  o_updated_at :: timestamptz
  o_deleted_at :: "timestamptz option"

record membership =
  m_id :: uuid
  m_user_id :: uuid
  m_organization_id :: uuid
  m_role :: role_enum
  m_invited_by :: "uuid option"
  m_invited_at :: "timestamptz option"
  m_accepted_at :: "timestamptz option"
  m_created_at :: timestamptz

text \<open>
  \<^verbatim>\<open>inventory\<close>: the descriptive columns other than \<^verbatim>\<open>card_name\<close> (set, rarity,
  condition, grading, prices, notes) are written by no function and read by no
  policy; they are left out.
\<close>

record inventory_item =
  i_id :: uuid
  i_organization_id :: uuid
  i_card_name :: string
  i_status :: inventory_status_enum
  i_updated_at :: timestamptz
  i_updated_by :: "uuid option"
  i_deleted_at :: "timestamptz option"

record transaction_row =
  t_id :: uuid
  t_organization_id :: uuid
  t_inventory_id :: uuid
  t_sold_price :: numeric
  t_sold_at :: timestamptz
  t_sold_by :: "uuid option"
  t_buyer_email :: "string option"
  t_buyer_notes :: "string option"
  t_created_at :: timestamptz

record invite =
  v_id :: uuid
  v_organization_id :: uuid
  v_email :: string
  v_role :: role_enum
  v_token :: string
  v_invited_by :: "uuid option"
  v_created_at :: timestamptz
  v_expires_at :: "timestamptz option"
  v_accepted_at :: "timestamptz option"
  v_revoked_at :: "timestamptz option"

record inventory_image =
  g_id :: uuid
  g_inventory_id :: uuid
  g_organization_id :: uuid
  g_storage_path :: string
  g_created_by :: "uuid option"

text \<open>\<^verbatim>\<open>to_jsonb(OLD)\<close> and \<^verbatim>\<open>to_jsonb(NEW)\<close>: the image of a row of an audited table.\<close>

datatype row_image =
  Organization_row organization
| Membership_row membership
| Inventory_row inventory_item

datatype tg_op = INSERT | UPDATE | DELETE

record audit_entry =
  a_id :: uuid
  a_organization_id :: uuid
  a_table_name :: string
  a_record_id :: uuid
  a_action :: tg_op
  a_old_data :: "row_image option"
  a_new_data :: "row_image option"
  a_changed_by :: "uuid option"
  a_changed_at :: timestamptz

text \<open>
  The database. \<open>next_uuid\<close> stands for \<^verbatim>\<open>gen_random_uuid()\<close>: each call takes it
  and moves it on. \<open>lower\<close> is \<^verbatim>\<open>LOWER\<close>: which letters it folds is decided by the
  locale (\<^verbatim>\<open>LC_CTYPE\<close>) the database was created with, so it is kept with the
  database, no statement changes it, and what is proved of a procedure that
  calls it holds whatever the locale folds.
\<close>

record db =
  auth_users :: "auth_user list"
  organizations :: "organization list"
  memberships :: "membership list"
  inventory :: "inventory_item list"
  transactions :: "transaction_row list"
  invites :: "invite list"
  inventory_images :: "inventory_image list"
  audit_log :: "audit_entry list"
  next_uuid :: uuid
  lower :: "string \<Rightarrow> string"

text \<open>The request: \<^verbatim>\<open>auth.uid()\<close> (\<open>None\<close> for a caller with no session) and \<^verbatim>\<open>now()\<close>.\<close>

record ctx =
  auth_uid :: "uuid option"
  now :: timestamptz

subsection \<open>Errors\<close>

text \<open>
  One constructor for each \<^verbatim>\<open>RAISE EXCEPTION\<close> of the procedures, and one for each
  kind of constraint the statements can violate, carrying the constraint's name.
\<close>

datatype error =
  Invalid_slug_format
| Invalid_invite_token
| Invite_has_been_revoked
| Invite_has_already_been_used
| Invite_has_expired
| Organization_no_longer_exists
| Invite_is_for_a_different_email_address
| Inventory_item_not_found
| Card_is_not_available inventory_status_enum
| Access_denied
| Only_owners_can_delete_organizations
| Not_a_member_of_this_organization
| Cannot_leave_only_owner
| Not_null_violation string
| Check_violation string
| Unique_violation string
| Numeric_field_overflow
| Row_security_violation string

type_synonym 'a outcome = "(error + 'a) \<times> db"

definition transaction :: "(db \<Rightarrow> 'a outcome) \<Rightarrow> db \<Rightarrow> 'a outcome" where
  "transaction body s =
     (case body s of
        (Inl e, _) \<Rightarrow> (Inl e, s)
      | (Inr v, s') \<Rightarrow> (Inr v, s'))"

subsection \<open>Text functions and the slug checks\<close>

text \<open>
  \<^verbatim>\<open>LOWER\<close> on ASCII text, where the C locale and the UTF-8 locales agree: the
  letters A to Z are folded and every other character is kept. It is the
  \<open>lower\<close> of the test databases below, whose emails are ASCII.
\<close>

definition ascii_lower_char :: "char \<Rightarrow> char" where
  "ascii_lower_char c =
     (let n = (of_char c :: nat)
      in if 65 \<le> n \<and> n \<le> 90 then char_of (n + 32) else c)"

definition ascii_lower :: "string \<Rightarrow> string" where
  "ascii_lower x = map ascii_lower_char x"

definition is_lower_alnum :: "char \<Rightarrow> bool" where
  "is_lower_alnum c =
     (let n = (of_char c :: nat)
      in (97 \<le> n \<and> n \<le> 122) \<or> (48 \<le> n \<and> n \<le> 57))"

text \<open>The pattern \<^verbatim>\<open>^[a-z0-9][a-z0-9-]{0,30}[a-z0-9]$\<close>.\<close>

definition slug_format :: "string \<Rightarrow> bool" where
  "slug_format s =
     (2 \<le> length s \<and> length s \<le> 32 \<and>
      is_lower_alnum (hd s) \<and> is_lower_alnum (last s) \<and>
      list_all (\<lambda>c. is_lower_alnum c \<or> c = CHR ''-'') (butlast (tl s)))"

definition reserved_slugs :: "string list" where
  "reserved_slugs = [''api'', ''admin'', ''www'', ''app'', ''auth'', ''login'', ''register'']"

definition slug_not_reserved :: "string \<Rightarrow> bool" where
  "slug_not_reserved s = (s \<notin> set reserved_slugs)"

text \<open>\<^verbatim>\<open>trim\<close> removes the spaces at both ends.\<close>

definition trim :: "string \<Rightarrow> string" where
  "trim s = rev (dropWhile (\<lambda>c. c = CHR '' '') (rev (dropWhile (\<lambda>c. c = CHR '' '') s)))"

definition name_valid :: "string \<Rightarrow> bool" where
  "name_valid n = (1 \<le> length (trim n) \<and> length (trim n) \<le> 100)"

subsection \<open>Triggers\<close>

text \<open>
  A row trigger sees \<^verbatim>\<open>TG_OP\<close> with \<^verbatim>\<open>NEW\<close> (insert), \<^verbatim>\<open>OLD\<close> and \<^verbatim>\<open>NEW\<close> (update)
  or \<^verbatim>\<open>OLD\<close> (delete).
\<close>

datatype 'r tg_event = Tg_insert 'r | Tg_update 'r 'r | Tg_delete 'r

fun tg_OP :: "'r tg_event \<Rightarrow> tg_op" where
  "tg_OP (Tg_insert new) = INSERT"
| "tg_OP (Tg_update old new) = UPDATE"
| "tg_OP (Tg_delete old) = DELETE"

text \<open>\<^verbatim>\<open>COALESCE(NEW.col, OLD.col)\<close> for a column that is never null.\<close>

fun coalesce_new_old :: "('r \<Rightarrow> 'a) \<Rightarrow> 'r tg_event \<Rightarrow> 'a" where
  "coalesce_new_old col (Tg_insert new) = col new"
| "coalesce_new_old col (Tg_update old new) = col new"
| "coalesce_new_old col (Tg_delete old) = col old"

text \<open>\<^verbatim>\<open>CASE WHEN TG_OP IN ('UPDATE', 'DELETE') THEN to_jsonb(OLD) END\<close>.\<close>

fun old_data :: "('r \<Rightarrow> row_image) \<Rightarrow> 'r tg_event \<Rightarrow> row_image option" where
  "old_data to_jsonb (Tg_insert new) = None"
| "old_data to_jsonb (Tg_update old new) = Some (to_jsonb old)"
| "old_data to_jsonb (Tg_delete old) = Some (to_jsonb old)"

text \<open>\<^verbatim>\<open>CASE WHEN TG_OP IN ('INSERT', 'UPDATE') THEN to_jsonb(NEW) END\<close>.\<close>

fun new_data :: "('r \<Rightarrow> row_image) \<Rightarrow> 'r tg_event \<Rightarrow> row_image option" where
  "new_data to_jsonb (Tg_insert new) = Some (to_jsonb new)"
| "new_data to_jsonb (Tg_update old new) = Some (to_jsonb new)"
| "new_data to_jsonb (Tg_delete old) = None"

definition insert_audit_log ::
  "ctx \<Rightarrow> uuid \<Rightarrow> string \<Rightarrow> uuid \<Rightarrow> tg_op \<Rightarrow> row_image option \<Rightarrow> row_image option \<Rightarrow>
   uuid option \<Rightarrow> db \<Rightarrow> db" where
  "insert_audit_log c org tbl rid act old new who s =
     s\<lparr>audit_log := audit_log s @
          [\<lparr>a_id = next_uuid s, a_organization_id = org, a_table_name = tbl,
            a_record_id = rid, a_action = act, a_old_data = old, a_new_data = new,
            a_changed_by = who, a_changed_at = now c\<rparr>],
       next_uuid := Suc (next_uuid s)\<rparr>"

text \<open>
  \<^verbatim>\<open>audit_trigger()\<close>, for the tables that have an \<^verbatim>\<open>organization_id\<close> column. The
  function is generic in the row type: the columns \<^verbatim>\<open>organization_id\<close> and \<^verbatim>\<open>id\<close>
  and \<^verbatim>\<open>to_jsonb\<close> of the table it is attached to are its first three arguments.
\<close>

definition audit_trigger ::
  "('r \<Rightarrow> uuid) \<Rightarrow> ('r \<Rightarrow> uuid) \<Rightarrow> ('r \<Rightarrow> row_image) \<Rightarrow>
   ctx \<Rightarrow> string \<Rightarrow> 'r tg_event \<Rightarrow> db \<Rightarrow> db" where
  "audit_trigger organization_id id_col to_jsonb c tg_table_name ev s =
     insert_audit_log c
       (coalesce_new_old organization_id ev)
       tg_table_name
       (coalesce_new_old id_col ev)
       (tg_OP ev)
       (old_data to_jsonb ev)
       (new_data to_jsonb ev)
       (auth_uid c) s"

text \<open>\<^verbatim>\<open>audit_trigger_organizations()\<close>: the organization's own id is the tenant.\<close>

definition audit_trigger_organizations ::
  "ctx \<Rightarrow> string \<Rightarrow> organization tg_event \<Rightarrow> db \<Rightarrow> db" where
  "audit_trigger_organizations c tg_table_name ev s =
     insert_audit_log c
       (coalesce_new_old o_id ev)
       tg_table_name
       (coalesce_new_old o_id ev)
       (tg_OP ev)
       (old_data Organization_row ev)
       (new_data Organization_row ev)
       (auth_uid c) s"

text \<open>
  The \<^verbatim>\<open>CREATE TRIGGER\<close> statements: \<^verbatim>\<open>trg_inventory_audit\<close> and
  \<^verbatim>\<open>trg_memberships_audit\<close> are \<^verbatim>\<open>AFTER INSERT OR UPDATE OR DELETE\<close>,
  \<^verbatim>\<open>trg_organizations_audit\<close> is \<^verbatim>\<open>AFTER INSERT OR UPDATE\<close>. The tables
  \<^verbatim>\<open>transactions\<close>, \<^verbatim>\<open>invites\<close> and \<^verbatim>\<open>inventory_images\<close> have no trigger.
\<close>

definition trg_inventory_audit :: "ctx \<Rightarrow> inventory_item tg_event \<Rightarrow> db \<Rightarrow> db" where
  "trg_inventory_audit c ev s =
     audit_trigger i_organization_id i_id Inventory_row c ''inventory'' ev s"

definition trg_memberships_audit :: "ctx \<Rightarrow> membership tg_event \<Rightarrow> db \<Rightarrow> db" where
  "trg_memberships_audit c ev s =
     audit_trigger m_organization_id m_id Membership_row c ''memberships'' ev s"

definition trg_organizations_audit :: "ctx \<Rightarrow> organization tg_event \<Rightarrow> db \<Rightarrow> db" where
  "trg_organizations_audit c ev s =
     (case ev of
        Tg_delete old \<Rightarrow> s
      | _ \<Rightarrow> audit_trigger_organizations c ''organizations'' ev s)"

text \<open>\<^verbatim>\<open>update_updated_at()\<close>, \<^verbatim>\<open>BEFORE UPDATE\<close> on organizations and inventory.\<close>

definition trg_organizations_updated_at :: "ctx \<Rightarrow> organization \<Rightarrow> organization" where
  "trg_organizations_updated_at c new = new\<lparr>o_updated_at := now c\<rparr>"

definition trg_inventory_updated_at :: "ctx \<Rightarrow> inventory_item \<Rightarrow> inventory_item" where
  "trg_inventory_updated_at c new = new\<lparr>i_updated_at := now c\<rparr>"

subsection \<open>Helper functions of the row policies\<close>

text \<open>
  The \<^verbatim>\<open>SECURITY DEFINER STABLE\<close> functions the policies of the governed tables
  call. \<^verbatim>\<open>user_id = auth.uid()\<close> is not true of any row when \<^verbatim>\<open>auth.uid()\<close> is
  null.
\<close>

definition get_user_org_ids :: "ctx \<Rightarrow> db \<Rightarrow> uuid list" where
  "get_user_org_ids c s =
     map m_organization_id
       (filter (\<lambda>m. Some (m_user_id m) = auth_uid c \<and>
                    m_organization_id m \<in>
                      set (map o_id (filter (\<lambda>g. o_deleted_at g = None) (organizations s))))
          (memberships s))"

definition is_org_owner :: "ctx \<Rightarrow> db \<Rightarrow> uuid \<Rightarrow> bool" where
  "is_org_owner c s org_id =
     (\<exists>m \<in> set (memberships s).
        Some (m_user_id m) = auth_uid c \<and> m_organization_id m = org_id \<and> m_role m = Owner)"

definition is_org_admin_or_owner :: "ctx \<Rightarrow> db \<Rightarrow> uuid \<Rightarrow> bool" where
  "is_org_admin_or_owner c s org_id =
     (\<exists>m \<in> set (memberships s).
        Some (m_user_id m) = auth_uid c \<and> m_organization_id m = org_id \<and>
        m_role m \<in> {Owner, Admin})"

subsection \<open>Row policies\<close>

text \<open>
  One definition for each \<^verbatim>\<open>CREATE POLICY\<close>, named after its table and command.
  A \<^verbatim>\<open>USING\<close> expression reads the existing row, a \<^verbatim>\<open>WITH CHECK\<close> expression the
  new one; a command with no policy on a table is denied; an \<^verbatim>\<open>UPDATE\<close> or \<^verbatim>\<open>ALL\<close>
  policy with no \<^verbatim>\<open>WITH CHECK\<close> checks the new row with its \<^verbatim>\<open>USING\<close> expression.
\<close>

definition organizations_select :: "ctx \<Rightarrow> db \<Rightarrow> organization \<Rightarrow> bool" where
  "organizations_select c s r = (o_id r \<in> set (get_user_org_ids c s) \<and> o_deleted_at r = None)"

definition organizations_update_using :: "ctx \<Rightarrow> db \<Rightarrow> organization \<Rightarrow> bool" where
  "organizations_update_using c s r = (is_org_admin_or_owner c s (o_id r) \<and> o_deleted_at r = None)"

definition organizations_update_check :: "ctx \<Rightarrow> db \<Rightarrow> organization \<Rightarrow> bool" where
  "organizations_update_check c s r = (o_deleted_at r = None)"

definition organizations_insert_check :: "ctx \<Rightarrow> db \<Rightarrow> organization \<Rightarrow> bool" where
  "organizations_insert_check c s r = False"

definition memberships_select :: "ctx \<Rightarrow> db \<Rightarrow> membership \<Rightarrow> bool" where
  "memberships_select c s r = (m_organization_id r \<in> set (get_user_org_ids c s))"

definition memberships_insert_check :: "ctx \<Rightarrow> db \<Rightarrow> membership \<Rightarrow> bool" where
  "memberships_insert_check c s r = False"

definition memberships_update_using :: "ctx \<Rightarrow> db \<Rightarrow> membership \<Rightarrow> bool" where
  "memberships_update_using c s r = is_org_owner c s (m_organization_id r)"

definition memberships_delete_using :: "ctx \<Rightarrow> db \<Rightarrow> membership \<Rightarrow> bool" where
  "memberships_delete_using c s r = False"

definition inventory_select :: "ctx \<Rightarrow> db \<Rightarrow> inventory_item \<Rightarrow> bool" where
  "inventory_select c s r =
     (i_organization_id r \<in> set (get_user_org_ids c s) \<and> i_deleted_at r = None)"

definition inventory_insert_check :: "ctx \<Rightarrow> db \<Rightarrow> inventory_item \<Rightarrow> bool" where
  "inventory_insert_check c s r = (i_organization_id r \<in> set (get_user_org_ids c s))"

definition inventory_update_using :: "ctx \<Rightarrow> db \<Rightarrow> inventory_item \<Rightarrow> bool" where
  "inventory_update_using c s r =
     (i_organization_id r \<in> set (get_user_org_ids c s) \<and> i_deleted_at r = None)"

definition inventory_delete_using :: "ctx \<Rightarrow> db \<Rightarrow> inventory_item \<Rightarrow> bool" where
  "inventory_delete_using c s r = is_org_admin_or_owner c s (i_organization_id r)"

definition transactions_select :: "ctx \<Rightarrow> db \<Rightarrow> transaction_row \<Rightarrow> bool" where
  "transactions_select c s r = (t_organization_id r \<in> set (get_user_org_ids c s))"

definition transactions_insert_check :: "ctx \<Rightarrow> db \<Rightarrow> transaction_row \<Rightarrow> bool" where
  "transactions_insert_check c s r = False"

definition invites_all :: "ctx \<Rightarrow> db \<Rightarrow> invite \<Rightarrow> bool" where
  "invites_all c s r = is_org_admin_or_owner c s (v_organization_id r)"

text \<open>
  The \<^verbatim>\<open>inventory_images\<close> policies of \<^verbatim>\<open>20260209000004_perf_fixes.sql\<close>. Their
  subquery reads \<^verbatim>\<open>public.memberships\<close> directly, not through a \<^verbatim>\<open>SECURITY
  DEFINER\<close> function, so it runs as the caller and sees the rows that the
  \<^verbatim>\<open>SELECT\<close> policy of \<^verbatim>\<open>memberships\<close> admits to the caller.
\<close>

definition inventory_images_select :: "ctx \<Rightarrow> db \<Rightarrow> inventory_image \<Rightarrow> bool" where
  "inventory_images_select c s r =
     (g_organization_id r \<in>
        set (map m_organization_id
               (filter (\<lambda>m. Some (m_user_id m) = auth_uid c)
                  (filter (memberships_select c s) (memberships s)))))"

definition inventory_images_insert :: "ctx \<Rightarrow> db \<Rightarrow> inventory_image \<Rightarrow> bool" where
  "inventory_images_insert c s r =
     (g_organization_id r \<in>
        set (map m_organization_id
               (filter (\<lambda>m. Some (m_user_id m) = auth_uid c)
                  (filter (memberships_select c s) (memberships s)))))"

definition inventory_images_update :: "ctx \<Rightarrow> db \<Rightarrow> inventory_image \<Rightarrow> bool" where
  "inventory_images_update c s r =
     (g_organization_id r \<in>
        set (map m_organization_id
               (filter (\<lambda>m. Some (m_user_id m) = auth_uid c)
                  (filter (memberships_select c s) (memberships s)))))"

definition inventory_images_delete :: "ctx \<Rightarrow> db \<Rightarrow> inventory_image \<Rightarrow> bool" where
  "inventory_images_delete c s r =
     ((g_created_by r \<noteq> None \<and> g_created_by r = auth_uid c) \<or>
      g_organization_id r \<in>
        set (map m_organization_id
               (filter (\<lambda>m. Some (m_user_id m) = auth_uid c \<and> m_role m \<in> {Owner, Admin})
                  (filter (memberships_select c s) (memberships s)))))"

definition audit_log_select :: "ctx \<Rightarrow> db \<Rightarrow> audit_entry \<Rightarrow> bool" where
  "audit_log_select c s r = is_org_admin_or_owner c s (a_organization_id r)"

text \<open>
  The policies as one table: the row of any governed table, the command, and
  whether row-level security admits it for the caller. \<open>Update\<close> is admitted
  for an existing row by the \<^verbatim>\<open>USING\<close> expression.
\<close>

datatype governed_row =
  Organizations organization
| Memberships membership
| Inventory inventory_item
| Transactions transaction_row
| Invites invite
| Inventory_images inventory_image
| Audit_log audit_entry

datatype sql_command = Select | Insert | Update | Delete

fun row_organization :: "governed_row \<Rightarrow> uuid" where
  "row_organization (Organizations r) = o_id r"
| "row_organization (Memberships r) = m_organization_id r"
| "row_organization (Inventory r) = i_organization_id r"
| "row_organization (Transactions r) = t_organization_id r"
| "row_organization (Invites r) = v_organization_id r"
| "row_organization (Inventory_images r) = g_organization_id r"
| "row_organization (Audit_log r) = a_organization_id r"

fun policy_admits :: "ctx \<Rightarrow> db \<Rightarrow> sql_command \<Rightarrow> governed_row \<Rightarrow> bool" where
  "policy_admits c s Select (Organizations r) = organizations_select c s r"
| "policy_admits c s Insert (Organizations r) = organizations_insert_check c s r"
| "policy_admits c s Update (Organizations r) = organizations_update_using c s r"
| "policy_admits c s Delete (Organizations r) = False"
| "policy_admits c s Select (Memberships r) = memberships_select c s r"
| "policy_admits c s Insert (Memberships r) = memberships_insert_check c s r"
| "policy_admits c s Update (Memberships r) = memberships_update_using c s r"
| "policy_admits c s Delete (Memberships r) = memberships_delete_using c s r"
| "policy_admits c s Select (Inventory r) = inventory_select c s r"
| "policy_admits c s Insert (Inventory r) = inventory_insert_check c s r"
| "policy_admits c s Update (Inventory r) = inventory_update_using c s r"
| "policy_admits c s Delete (Inventory r) = inventory_delete_using c s r"
| "policy_admits c s Select (Transactions r) = transactions_select c s r"
| "policy_admits c s Insert (Transactions r) = transactions_insert_check c s r"
| "policy_admits c s Update (Transactions r) = False"
| "policy_admits c s Delete (Transactions r) = False"
| "policy_admits c s cmd (Invites r) = invites_all c s r"
| "policy_admits c s Select (Inventory_images r) = inventory_images_select c s r"
| "policy_admits c s Insert (Inventory_images r) = inventory_images_insert c s r"
| "policy_admits c s Update (Inventory_images r) = inventory_images_update c s r"
| "policy_admits c s Delete (Inventory_images r) = inventory_images_delete c s r"
| "policy_admits c s Select (Audit_log r) = audit_log_select c s r"
| "policy_admits c s Insert (Audit_log r) = False"
| "policy_admits c s Update (Audit_log r) = False"
| "policy_admits c s Delete (Audit_log r) = False"

definition soft_deleted :: "db \<Rightarrow> uuid \<Rightarrow> bool" where
  "soft_deleted s org_id =
     (\<exists>g \<in> set (organizations s). o_id g = org_id \<and> o_deleted_at g \<noteq> None)"

subsection \<open>Statements\<close>

text \<open>
  The statements the procedures run, with the constraints of the table and its
  row triggers. A statement that violates a constraint changes nothing. Foreign
  keys are not checked again: every id a procedure writes is read from a row of
  the referenced table in the same call, or is \<^verbatim>\<open>auth.uid()\<close>. An \<^verbatim>\<open>AFTER ... FOR
  EACH ROW\<close> trigger runs once for each row the statement touched.
\<close>

definition insert_organizations ::
  "ctx \<Rightarrow> string option \<Rightarrow> string option \<Rightarrow> db \<Rightarrow> organization outcome" where
  "insert_organizations c name slug s =
     (case name of
        None \<Rightarrow> (Inl (Not_null_violation ''name''), s)
      | Some n \<Rightarrow>
     (case slug of
        None \<Rightarrow> (Inl (Not_null_violation ''slug''), s)
      | Some sl \<Rightarrow>
          if \<not> name_valid n then (Inl (Check_violation ''name_valid''), s)
          else if \<not> slug_format sl then (Inl (Check_violation ''slug_format''), s)
          else if \<not> slug_not_reserved sl then (Inl (Check_violation ''slug_not_reserved''), s)
          else if sl \<in> set (map o_slug (organizations s))
            then (Inl (Unique_violation ''organizations_slug_key''), s)
          else
            let new = \<lparr>o_id = next_uuid s, o_name = n, o_slug = sl, o_created_at = now c,
                       o_updated_at = now c, o_deleted_at = None\<rparr>
            in (Inr new,
                trg_organizations_audit c (Tg_insert new)
                  (s\<lparr>organizations := organizations s @ [new],
                     next_uuid := Suc (next_uuid s)\<rparr>))))"

definition update_organizations ::
  "ctx \<Rightarrow> (organization \<Rightarrow> bool) \<Rightarrow> (organization \<Rightarrow> organization) \<Rightarrow> db \<Rightarrow> db" where
  "update_organizations c wh set_cols s =
     fold (\<lambda>old. trg_organizations_audit c
                   (Tg_update old (trg_organizations_updated_at c (set_cols old))))
       (filter wh (organizations s))
       (s\<lparr>organizations :=
            map (\<lambda>r. if wh r then trg_organizations_updated_at c (set_cols r) else r)
              (organizations s)\<rparr>)"

definition insert_memberships ::
  "ctx \<Rightarrow> uuid option \<Rightarrow> uuid \<Rightarrow> role_enum \<Rightarrow> uuid option \<Rightarrow> timestamptz option \<Rightarrow>
   timestamptz option \<Rightarrow> db \<Rightarrow> membership outcome" where
  "insert_memberships c user_id organization_id role invited_by invited_at accepted_at s =
     (case user_id of
        None \<Rightarrow> (Inl (Not_null_violation ''user_id''), s)
      | Some u \<Rightarrow>
          if \<exists>m \<in> set (memberships s). m_user_id m = u \<and> m_organization_id m = organization_id
            then (Inl (Unique_violation ''memberships_user_id_organization_id_key''), s)
          else
            let new = \<lparr>m_id = next_uuid s, m_user_id = u, m_organization_id = organization_id,
                       m_role = role, m_invited_by = invited_by, m_invited_at = invited_at,
                       m_accepted_at = accepted_at, m_created_at = now c\<rparr>
            in (Inr new,
                trg_memberships_audit c (Tg_insert new)
                  (s\<lparr>memberships := memberships s @ [new],
                     next_uuid := Suc (next_uuid s)\<rparr>)))"

definition update_memberships ::
  "ctx \<Rightarrow> (membership \<Rightarrow> bool) \<Rightarrow> (membership \<Rightarrow> membership) \<Rightarrow> db \<Rightarrow> db" where
  "update_memberships c wh set_cols s =
     fold (\<lambda>old. trg_memberships_audit c (Tg_update old (set_cols old)))
       (filter wh (memberships s))
       (s\<lparr>memberships := map (\<lambda>r. if wh r then set_cols r else r) (memberships s)\<rparr>)"

definition delete_memberships :: "ctx \<Rightarrow> (membership \<Rightarrow> bool) \<Rightarrow> db \<Rightarrow> db" where
  "delete_memberships c wh s =
     fold (\<lambda>old. trg_memberships_audit c (Tg_delete old))
       (filter wh (memberships s))
       (s\<lparr>memberships := filter (\<lambda>r. \<not> wh r) (memberships s)\<rparr>)"

definition update_inventory ::
  "ctx \<Rightarrow> (inventory_item \<Rightarrow> bool) \<Rightarrow> (inventory_item \<Rightarrow> inventory_item) \<Rightarrow> db \<Rightarrow> db" where
  "update_inventory c wh set_cols s =
     fold (\<lambda>old. trg_inventory_audit c
                   (Tg_update old (trg_inventory_updated_at c (set_cols old))))
       (filter wh (inventory s))
       (s\<lparr>inventory :=
            map (\<lambda>r. if wh r then trg_inventory_updated_at c (set_cols r) else r)
              (inventory s)\<rparr>)"

text \<open>
  \<^verbatim>\<open>sold_price DECIMAL(10,2) NOT NULL\<close>: an amount of \<open>10\<^sup>8\<close> or more, that is
  \<open>10\<^sup>1\<^sup>0\<close> hundredths, does not fit the column. The price is taken as
  already rounded to hundredths.
\<close>

definition insert_transactions ::
  "ctx \<Rightarrow> uuid \<Rightarrow> uuid \<Rightarrow> numeric option \<Rightarrow> uuid option \<Rightarrow> string option \<Rightarrow>
   string option \<Rightarrow> db \<Rightarrow> transaction_row outcome" where
  "insert_transactions c organization_id inventory_id sold_price sold_by buyer_email buyer_notes s =
     (case sold_price of
        None \<Rightarrow> (Inl (Not_null_violation ''sold_price''), s)
      | Some p \<Rightarrow>
          if 10000000000 \<le> \<bar>p\<bar> then (Inl Numeric_field_overflow, s)
          else
            let new = \<lparr>t_id = next_uuid s, t_organization_id = organization_id,
                       t_inventory_id = inventory_id, t_sold_price = p, t_sold_at = now c,
                       t_sold_by = sold_by, t_buyer_email = buyer_email,
                       t_buyer_notes = buyer_notes, t_created_at = now c\<rparr>
            in (Inr new,
                s\<lparr>transactions := transactions s @ [new], next_uuid := Suc (next_uuid s)\<rparr>))"

definition update_invites :: "(invite \<Rightarrow> bool) \<Rightarrow> (invite \<Rightarrow> invite) \<Rightarrow> db \<Rightarrow> db" where
  "update_invites wh set_cols s =
     s\<lparr>invites := map (\<lambda>r. if wh r then set_cols r else r) (invites s)\<rparr>"

subsection \<open>The privileged procedures\<close>

text \<open>
  The \<^verbatim>\<open>SECURITY DEFINER\<close> functions: their statements bypass the row policies.
  \<^verbatim>\<open>SELECT ... INTO\<close> takes the first row that matches. A null \<^verbatim>\<open>p_token\<close>,
  \<^verbatim>\<open>p_inventory_id\<close> or \<^verbatim>\<open>p_org_id\<close> matches no row, as an absent one does.
\<close>

text \<open>\<^verbatim>\<open>IF p_slug !~ '...'\<close> is not taken when \<^verbatim>\<open>p_slug\<close> is null.\<close>

definition create_organization ::
  "ctx \<Rightarrow> string option \<Rightarrow> string option \<Rightarrow> db \<Rightarrow> organization outcome" where
  "create_organization c p_name p_slug s =
     (if (case p_slug of None \<Rightarrow> False | Some sl \<Rightarrow> \<not> slug_format sl)
        then (Inl Invalid_slug_format, s)
      else
        (case insert_organizations c p_name p_slug s of
           (Inl e, s1) \<Rightarrow> (Inl e, s1)
         | (Inr v_org, s1) \<Rightarrow>
             (case insert_memberships c (auth_uid c) (o_id v_org) Owner None None
                     (Some (now c)) s1 of
                (Inl e, s2) \<Rightarrow> (Inl e, s2)
              | (Inr _, s2) \<Rightarrow> (Inr v_org, s2))))"

text \<open>\<^verbatim>\<open>(SELECT email FROM auth.users WHERE id = auth.uid())\<close>.\<close>

definition current_user_email :: "ctx \<Rightarrow> db \<Rightarrow> string option" where
  "current_user_email c s =
     (case auth_uid c of
        None \<Rightarrow> None
      | Some u \<Rightarrow>
          (case find (\<lambda>a. au_id a = u) (auth_users s) of
             None \<Rightarrow> None
           | Some a \<Rightarrow> au_email a))"

text \<open>Whether \<^verbatim>\<open>a != b\<close> is true: it is null, and an \<^verbatim>\<open>IF\<close> is not taken, when a side is null.\<close>

fun sql_neq :: "'a option \<Rightarrow> 'a option \<Rightarrow> bool" where
  "sql_neq (Some a) (Some b) = (a \<noteq> b)"
| "sql_neq _ _ = False"

definition accept_invite :: "ctx \<Rightarrow> string \<Rightarrow> db \<Rightarrow> membership outcome" where
  "accept_invite c p_token s =
     (case find (\<lambda>v. v_token v = p_token) (invites s) of
        None \<Rightarrow> (Inl Invalid_invite_token, s)
      | Some v_invite \<Rightarrow>
          if v_revoked_at v_invite \<noteq> None then (Inl Invite_has_been_revoked, s)
          else if v_accepted_at v_invite \<noteq> None then (Inl Invite_has_already_been_used, s)
          else if (case v_expires_at v_invite of None \<Rightarrow> False | Some e \<Rightarrow> e < now c)
            then (Inl Invite_has_expired, s)
          else if \<exists>g \<in> set (organizations s).
                    o_id g = v_organization_id v_invite \<and> o_deleted_at g \<noteq> None
            then (Inl Organization_no_longer_exists, s)
          else if sql_neq (map_option (lower s) (current_user_email c s))
                    (Some (lower s (v_email v_invite)))
            then (Inl Invite_is_for_a_different_email_address, s)
          else
            (case insert_memberships c (auth_uid c) (v_organization_id v_invite)
                    (v_role v_invite) (v_invited_by v_invite) (Some (v_created_at v_invite))
                    (Some (now c)) s of
               (Inl e, s1) \<Rightarrow> (Inl e, s1)
             | (Inr v_membership, s1) \<Rightarrow>
                 (Inr v_membership,
                  update_invites (\<lambda>v. v_id v = v_id v_invite)
                    (\<lambda>v. v\<lparr>v_accepted_at := Some (now c)\<rparr>) s1)))"

definition mark_card_sold ::
  "ctx \<Rightarrow> uuid \<Rightarrow> numeric option \<Rightarrow> string option \<Rightarrow> string option \<Rightarrow> db \<Rightarrow>
   transaction_row outcome" where
  "mark_card_sold c p_inventory_id p_sold_price p_buyer_email p_buyer_notes s =
     (case find (\<lambda>i. i_id i = p_inventory_id \<and> i_deleted_at i = None) (inventory s) of
        None \<Rightarrow> (Inl Inventory_item_not_found, s)
      | Some item \<Rightarrow>
          let v_org_id = i_organization_id item; v_status = i_status item in
          if v_status \<noteq> Available then (Inl (Card_is_not_available v_status), s)
          else if \<not> (\<exists>m \<in> set (memberships s).
                        Some (m_user_id m) = auth_uid c \<and> m_organization_id m = v_org_id)
            then (Inl Access_denied, s)
          else
            insert_transactions c v_org_id p_inventory_id p_sold_price (auth_uid c)
              p_buyer_email p_buyer_notes
              (update_inventory c (\<lambda>i. i_id i = p_inventory_id)
                 (\<lambda>i. i\<lparr>i_status := Sold, i_updated_at := now c, i_updated_by := auth_uid c\<rparr>)
                 s))"

definition soft_delete_organization ::
  "ctx \<Rightarrow> uuid \<Rightarrow> db \<Rightarrow> organization option outcome" where
  "soft_delete_organization c p_org_id s =
     (if \<not> (\<exists>m \<in> set (memberships s).
               Some (m_user_id m) = auth_uid c \<and> m_organization_id m = p_org_id \<and>
               m_role m = Owner)
        then (Inl Only_owners_can_delete_organizations, s)
      else
        let s1 = update_organizations c (\<lambda>g. o_id g = p_org_id)
                   (\<lambda>g. g\<lparr>o_deleted_at := Some (now c)\<rparr>) s
        in (Inr (find (\<lambda>g. o_id g = p_org_id) (organizations s1)), s1))"

text \<open>\<^verbatim>\<open>leave_organization\<close> as replaced by \<^verbatim>\<open>20260209000003_fix_leave_org.sql\<close>.\<close>

definition leave_organization :: "ctx \<Rightarrow> uuid \<Rightarrow> db \<Rightarrow> unit outcome" where
  "leave_organization c p_org_id s =
     (case find (\<lambda>m. Some (m_user_id m) = auth_uid c \<and> m_organization_id m = p_org_id)
             (memberships s) of
        None \<Rightarrow> (Inl Not_a_member_of_this_organization, s)
      | Some mine \<Rightarrow>
          let v_my_membership_id = m_id mine; v_role = m_role mine;
              v_owner_count =
                length (filter (\<lambda>m. m_organization_id m = p_org_id \<and> m_role m = Owner)
                          (memberships s))
          in
          if v_role = Owner \<and> v_owner_count \<le> 1 then (Inl Cannot_leave_only_owner, s)
          else (Inr (), delete_memberships c (\<lambda>m. m_id m = v_my_membership_id) s))"

subsection \<open>Statements of a client, under the row policies\<close>

text \<open>
  A statement sent by a signed-in client runs under row-level security. An
  \<^verbatim>\<open>UPDATE ... WHERE\<close> reads the table, so it touches the rows its \<^verbatim>\<open>WHERE\<close>
  selects and both the \<^verbatim>\<open>SELECT\<close> policy and the \<^verbatim>\<open>USING\<close> expression of the
  \<^verbatim>\<open>UPDATE\<close> policy admit; it fails when a new row does not pass the check of
  the \<^verbatim>\<open>UPDATE\<close> policy or the \<^verbatim>\<open>SELECT\<close> policy. The policy helper functions
  are \<^verbatim>\<open>STABLE\<close>: they read the tables as the statement found them.
\<close>

definition client_update_inventory ::
  "ctx \<Rightarrow> (inventory_item \<Rightarrow> bool) \<Rightarrow> (inventory_item \<Rightarrow> inventory_item) \<Rightarrow> db \<Rightarrow>
   unit outcome" where
  "client_update_inventory c wh set_cols s =
     (let target = (\<lambda>r. wh r \<and> inventory_select c s r \<and> inventory_update_using c s r) in
      if \<exists>old \<in> set (filter target (inventory s)).
           \<not> (inventory_update_using c s (trg_inventory_updated_at c (set_cols old)) \<and>
              inventory_select c s (trg_inventory_updated_at c (set_cols old)))
        then (Inl (Row_security_violation ''inventory''), s)
      else (Inr (), update_inventory c target set_cols s))"

definition client_update_memberships ::
  "ctx \<Rightarrow> (membership \<Rightarrow> bool) \<Rightarrow> (membership \<Rightarrow> membership) \<Rightarrow> db \<Rightarrow> unit outcome" where
  "client_update_memberships c wh set_cols s =
     (let target = (\<lambda>r. wh r \<and> memberships_select c s r \<and> memberships_update_using c s r) in
      if \<exists>old \<in> set (filter target (memberships s)).
           \<not> (memberships_update_using c s (set_cols old) \<and>
              memberships_select c s (set_cols old))
        then (Inl (Row_security_violation ''memberships''), s)
      else (Inr (), update_memberships c target set_cols s))"

text \<open>
  \<^verbatim>\<open>CREATE UNIQUE INDEX idx_invites_org_email_pending ON invites(organization_id,
  email) WHERE accepted_at IS NULL AND revoked_at IS NULL\<close>: the rows it covers,
  and what it demands of the table.
\<close>

definition unanswered :: "invite \<Rightarrow> bool" where
  "unanswered v = (v_accepted_at v = None \<and> v_revoked_at v = None)"

definition idx_invites_org_email_pending :: "invite list \<Rightarrow> bool" where
  "idx_invites_org_email_pending rows =
     distinct (map (\<lambda>v. (v_organization_id v, v_email v)) (filter unanswered rows))"

text \<open>
  \<^verbatim>\<open>INSERT INTO invites (organization_id, email, role, token, invited_by)\<close>: the
  other columns take their defaults, \<^verbatim>\<open>expires_at\<close> seven days from \<^verbatim>\<open>now()\<close>.
  The new row is checked against the rows the index holds.
\<close>

definition client_insert_invites ::
  "ctx \<Rightarrow> uuid \<Rightarrow> string \<Rightarrow> role_enum \<Rightarrow> string \<Rightarrow> uuid option \<Rightarrow> db \<Rightarrow> invite outcome" where
  "client_insert_invites c organization_id email role token invited_by s =
     (let new = \<lparr>v_id = next_uuid s, v_organization_id = organization_id, v_email = email,
                 v_role = role, v_token = token, v_invited_by = invited_by,
                 v_created_at = now c, v_expires_at = Some (now c + 604800),
                 v_accepted_at = None, v_revoked_at = None\<rparr>
      in
      if \<not> invites_all c s new then (Inl (Row_security_violation ''invites''), s)
      else if token \<in> set (map v_token (invites s))
        then (Inl (Unique_violation ''invites_token_key''), s)
      else if \<exists>v \<in> set (invites s).
                v_organization_id v = organization_id \<and> v_email v = email \<and> unanswered v
        then (Inl (Unique_violation ''idx_invites_org_email_pending''), s)
      else (Inr new, s\<lparr>invites := invites s @ [new], next_uuid := Suc (next_uuid s)\<rparr>))"

definition client_update_invites ::
  "ctx \<Rightarrow> (invite \<Rightarrow> bool) \<Rightarrow> (invite \<Rightarrow> invite) \<Rightarrow> db \<Rightarrow> unit outcome" where
  "client_update_invites c wh set_cols s =
     (let target = (\<lambda>r. wh r \<and> invites_all c s r);
          news = map (\<lambda>r. if target r then set_cols r else r) (invites s)
      in
      if \<exists>old \<in> set (filter target (invites s)). \<not> invites_all c s (set_cols old)
        then (Inl (Row_security_violation ''invites''), s)
      else if \<not> distinct (map v_token news)
        then (Inl (Unique_violation ''invites_token_key''), s)
      else if \<not> idx_invites_org_email_pending news
        then (Inl (Unique_violation ''idx_invites_org_email_pending''), s)
      else (Inr (), s\<lparr>invites := news\<rparr>))"

section \<open>Properties\<close>

subsection \<open>State predicates\<close>

definition transaction_count :: "db \<Rightarrow> uuid \<Rightarrow> nat" where
  "transaction_count s i = length (filter (\<lambda>t. t_inventory_id t = i) (transactions s))"

text \<open>Every item has at most one sale record, and has one exactly when it is sold.\<close>

definition sale_recorded_once :: "db \<Rightarrow> bool" where
  "sale_recorded_once s =
     list_all (\<lambda>r. transaction_count s (i_id r) \<le> 1 \<and>
                   (transaction_count s (i_id r) = 1) = (i_status r = Sold))
       (inventory s)"

definition owner_count :: "db \<Rightarrow> uuid \<Rightarrow> nat" where
  "owner_count s org_id =
     length (filter (\<lambda>m. m_organization_id m = org_id \<and> m_role m = Owner) (memberships s))"

text \<open>Every organization row, soft-deleted or not, has an owner.\<close>

definition every_organization_has_owner :: "db \<Rightarrow> bool" where
  "every_organization_has_owner s =
     list_all (\<lambda>g. 1 \<le> owner_count s (o_id g)) (organizations s)"

text \<open>The invites table keeps its unique index \<^verbatim>\<open>idx_invites_org_email_pending\<close>.\<close>

definition pending_unique :: "db \<Rightarrow> bool" where
  "pending_unique s = idx_invites_org_email_pending (invites s)"

text \<open>Expired by time: not a stored state, \<^verbatim>\<open>expires_at < now()\<close>.\<close>

definition expired :: "ctx \<Rightarrow> invite \<Rightarrow> bool" where
  "expired c v = (case v_expires_at v of None \<Rightarrow> False | Some e \<Rightarrow> e < now c)"

text \<open>An audit entry with its generated id blanked.\<close>

definition without_id :: "audit_entry \<Rightarrow> audit_entry" where
  "without_id a = a\<lparr>a_id := 0\<rparr>"

subsection \<open>The database of the policy tests\<close>

text \<open>
  The rows the pgTAP file \<^verbatim>\<open>CardStock RLS Tests\<close> sets up: an owner (10), a
  member (11) and an outsider (12), one organization (1) and one available
  card (4).
\<close>

definition rls_test_db :: db where
  "rls_test_db =
     \<lparr>auth_users = [\<lparr>au_id = 10, au_email = Some ''owner@test.com''\<rparr>,
                    \<lparr>au_id = 11, au_email = Some ''member@test.com''\<rparr>,
                    \<lparr>au_id = 12, au_email = Some ''outsider@test.com''\<rparr>],
      organizations = [\<lparr>o_id = 1, o_name = ''Test Store'', o_slug = ''test-store'',
                        o_created_at = 0, o_updated_at = 0, o_deleted_at = None\<rparr>],
      memberships = [\<lparr>m_id = 2, m_user_id = 10, m_organization_id = 1, m_role = Owner,
                      m_invited_by = None, m_invited_at = None, m_accepted_at = Some 0,
                      m_created_at = 0\<rparr>,
                     \<lparr>m_id = 3, m_user_id = 11, m_organization_id = 1, m_role = Member,
                      m_invited_by = None, m_invited_at = None, m_accepted_at = Some 0,
                      m_created_at = 0\<rparr>],
      inventory = [\<lparr>i_id = 4, i_organization_id = 1, i_card_name = ''Test Card'',
                    i_status = Available, i_updated_at = 0, i_updated_by = None,
                    i_deleted_at = None\<rparr>],
      transactions = [], invites = [], inventory_images = [], audit_log = [],
      next_uuid = 100, lower = ascii_lower\<rparr>"

definition as_user :: "uuid \<Rightarrow> ctx" where
  "as_user u = \<lparr>auth_uid = Some u, now = 1000\<rparr>"

text \<open>The same database after the organization was soft-deleted at time 500.\<close>

definition soft_deleted_test_db :: db where
  "soft_deleted_test_db =
     rls_test_db\<lparr>organizations :=
       [\<lparr>o_id = 1, o_name = ''Test Store'', o_slug = ''test-store'',
         o_created_at = 0, o_updated_at = 500, o_deleted_at = Some 500\<rparr>]\<rparr>"

text \<open>
  The same database with an invite, as admin, for the outsider's email spelled
  with capitals, created at time 900 and so expiring at 605700.
\<close>

definition test_invite :: invite where
  "test_invite =
     \<lparr>v_id = 5, v_organization_id = 1, v_email = ''Outsider@Test.com'', v_role = Admin,
      v_token = ''t0k3n'', v_invited_by = Some 10, v_created_at = 900,
      v_expires_at = Some 605700, v_accepted_at = None, v_revoked_at = None\<rparr>"

definition invite_test_db :: db where
  "invite_test_db = rls_test_db\<lparr>invites := [test_invite]\<rparr>"

text \<open>
  The same database with one more user (13), whose row of \<^verbatim>\<open>auth.users\<close> has no
  email, as after a sign-up by phone.
\<close>

definition no_email_test_db :: db where
  "no_email_test_db =
     invite_test_db\<lparr>auth_users := auth_users invite_test_db @
       [\<lparr>au_id = 13, au_email = None\<rparr>]\<rparr>"

section \<open>Proofs\<close>

subsection \<open>Rows found by a query\<close>

lemma find_SomeD: "find P xs = Some x \<Longrightarrow> x \<in> set xs \<and> P x"
  by (induction xs) (auto split: if_splits)

lemma find_only_row:
  assumes "x \<in> set xs" and "P x" and "\<forall>y \<in> set xs. P y \<longrightarrow> y = x"
  shows "find P xs = Some x"
  using assms
proof (induction xs)
  case Nil
  then show ?case by simp
next
  case (Cons a xs)
  show ?case
  proof (cases "P a")
    case True
    with Cons.prems(3) have "a = x" by (meson list.set_intros(1))
    with True show ?thesis by simp
  next
    case False
    with Cons.prems have "x \<in> set xs" by auto
    moreover from Cons.prems(3) have "\<forall>y \<in> set xs. P y \<longrightarrow> y = x"
      by (meson list.set_intros(2))
    ultimately have "find P xs = Some x" using Cons.IH Cons.prems(2) by blast
    with False show ?thesis by simp
  qed
qed

lemma distinct_map_eq:
  "distinct (map f xs) \<Longrightarrow> x \<in> set xs \<Longrightarrow> y \<in> set xs \<Longrightarrow> f x = f y \<Longrightarrow> x = y"
  by (simp add: distinct_map inj_on_def)

lemma transaction_cases:
  "transaction body s = (r, s') \<Longrightarrow>
     (\<exists>e. r = Inl e \<and> s' = s) \<or> (\<exists>v. r = Inr v \<and> body s = (Inr v, s'))"
  unfolding transaction_def by (auto split: prod.splits sum.splits)

subsection \<open>What the triggers and statements leave alone\<close>

lemma insert_audit_log_frame:
  "auth_users (insert_audit_log c org tbl rid act old new who s) = auth_users s"
  "organizations (insert_audit_log c org tbl rid act old new who s) = organizations s"
  "memberships (insert_audit_log c org tbl rid act old new who s) = memberships s"
  "inventory (insert_audit_log c org tbl rid act old new who s) = inventory s"
  "transactions (insert_audit_log c org tbl rid act old new who s) = transactions s"
  "invites (insert_audit_log c org tbl rid act old new who s) = invites s"
  "inventory_images (insert_audit_log c org tbl rid act old new who s) = inventory_images s"
  "next_uuid (insert_audit_log c org tbl rid act old new who s) = Suc (next_uuid s)"
  "length (audit_log (insert_audit_log c org tbl rid act old new who s)) =
     Suc (length (audit_log s))"
  by (simp_all add: insert_audit_log_def)

lemma trg_inventory_audit_frame:
  "auth_users (trg_inventory_audit c ev s) = auth_users s"
  "organizations (trg_inventory_audit c ev s) = organizations s"
  "memberships (trg_inventory_audit c ev s) = memberships s"
  "inventory (trg_inventory_audit c ev s) = inventory s"
  "transactions (trg_inventory_audit c ev s) = transactions s"
  "invites (trg_inventory_audit c ev s) = invites s"
  "inventory_images (trg_inventory_audit c ev s) = inventory_images s"
  "next_uuid (trg_inventory_audit c ev s) = Suc (next_uuid s)"
  "length (audit_log (trg_inventory_audit c ev s)) = Suc (length (audit_log s))"
  by (simp_all add: trg_inventory_audit_def audit_trigger_def insert_audit_log_frame)

lemma trg_memberships_audit_frame:
  "auth_users (trg_memberships_audit c ev s) = auth_users s"
  "organizations (trg_memberships_audit c ev s) = organizations s"
  "memberships (trg_memberships_audit c ev s) = memberships s"
  "inventory (trg_memberships_audit c ev s) = inventory s"
  "transactions (trg_memberships_audit c ev s) = transactions s"
  "invites (trg_memberships_audit c ev s) = invites s"
  "inventory_images (trg_memberships_audit c ev s) = inventory_images s"
  "next_uuid (trg_memberships_audit c ev s) = Suc (next_uuid s)"
  "length (audit_log (trg_memberships_audit c ev s)) = Suc (length (audit_log s))"
  by (simp_all add: trg_memberships_audit_def audit_trigger_def insert_audit_log_frame)

lemma fold_frame:
  assumes "\<And>x t. proj (f x t) = proj t"
  shows "proj (fold f xs s) = proj s"
  using assms by (induction xs arbitrary: s) simp_all

lemma fold_count:
  assumes "\<And>x t. length (audit_log (f x t)) = Suc (length (audit_log t))"
  shows "length (audit_log (fold f xs s)) = length (audit_log s) + length xs"
  using assms by (induction xs arbitrary: s) simp_all

lemma fold_next_uuid:
  assumes "\<And>x t. next_uuid (f x t) = Suc (next_uuid t)"
  shows "next_uuid (fold f xs s) = next_uuid s + length xs"
  using assms by (induction xs arbitrary: s) simp_all

lemma fold_commute:
  assumes "\<And>x t. f x (upd t) = upd (f x t)"
  shows "fold f xs (upd s) = upd (fold f xs s)"
  using assms by (induction xs arbitrary: s) simp_all

lemma update_inventory_frame:
  "auth_users (update_inventory c wh f s) = auth_users s"
  "organizations (update_inventory c wh f s) = organizations s"
  "memberships (update_inventory c wh f s) = memberships s"
  "inventory (update_inventory c wh f s) =
     map (\<lambda>r. if wh r then trg_inventory_updated_at c (f r) else r) (inventory s)"
  "transactions (update_inventory c wh f s) = transactions s"
  "invites (update_inventory c wh f s) = invites s"
  "inventory_images (update_inventory c wh f s) = inventory_images s"
  "length (audit_log (update_inventory c wh f s)) =
     length (audit_log s) + length (filter wh (inventory s))"
  "next_uuid (update_inventory c wh f s) = next_uuid s + length (filter wh (inventory s))"
  unfolding update_inventory_def
  by (simp_all add: fold_frame fold_count fold_next_uuid trg_inventory_audit_frame)

lemma update_memberships_frame:
  "auth_users (update_memberships c wh f s) = auth_users s"
  "organizations (update_memberships c wh f s) = organizations s"
  "memberships (update_memberships c wh f s) = map (\<lambda>r. if wh r then f r else r) (memberships s)"
  "inventory (update_memberships c wh f s) = inventory s"
  "transactions (update_memberships c wh f s) = transactions s"
  "invites (update_memberships c wh f s) = invites s"
  "inventory_images (update_memberships c wh f s) = inventory_images s"
  "length (audit_log (update_memberships c wh f s)) =
     length (audit_log s) + length (filter wh (memberships s))"
  unfolding update_memberships_def
  by (simp_all add: fold_frame fold_count trg_memberships_audit_frame)

lemma delete_memberships_frame:
  "auth_users (delete_memberships c wh s) = auth_users s"
  "organizations (delete_memberships c wh s) = organizations s"
  "memberships (delete_memberships c wh s) = filter (\<lambda>r. \<not> wh r) (memberships s)"
  "inventory (delete_memberships c wh s) = inventory s"
  "transactions (delete_memberships c wh s) = transactions s"
  "invites (delete_memberships c wh s) = invites s"
  "inventory_images (delete_memberships c wh s) = inventory_images s"
  "length (audit_log (delete_memberships c wh s)) =
     length (audit_log s) + length (filter wh (memberships s))"
  unfolding delete_memberships_def
  by (simp_all add: fold_frame fold_count trg_memberships_audit_frame)

subsection \<open>\<^verbatim>\<open>mark_card_sold\<close>\<close>

lemma mark_card_sold_Inr:
  assumes "mark_card_sold c i p be bn s = (Inr t, s')"
  shows "\<exists>item q.
       find (\<lambda>r. i_id r = i \<and> i_deleted_at r = None) (inventory s) = Some item \<and>
       i_status item = Available \<and>
       (\<exists>m \<in> set (memberships s). Some (m_user_id m) = auth_uid c \<and>
           m_organization_id m = i_organization_id item) \<and>
       p = Some q \<and> \<bar>q\<bar> < 10000000000 \<and>
       t_organization_id t = i_organization_id item \<and> t_inventory_id t = i \<and>
       t_sold_price t = q \<and> t_sold_by t = auth_uid c \<and>
       inventory s' =
         map (\<lambda>r. if i_id r = i
                   then r\<lparr>i_status := Sold, i_updated_at := now c, i_updated_by := auth_uid c\<rparr>
                   else r) (inventory s) \<and>
       transactions s' = transactions s @ [t] \<and>
       memberships s' = memberships s \<and> organizations s' = organizations s \<and>
       invites s' = invites s \<and>
       length (audit_log s') = length (audit_log s) + length (filter (\<lambda>r. i_id r = i) (inventory s))"
  using assms unfolding mark_card_sold_def insert_transactions_def
  by (auto split: option.splits if_splits
      simp: Let_def update_inventory_frame trg_inventory_updated_at_def)

text \<open>
  From a database where every item has at most one sale record, and one
  exactly when its status is \<open>sold\<close>, a call of \<^verbatim>\<open>mark_card_sold\<close> leaves a
  database with the same property, whether it succeeds or raises; a successful
  call adds one record, for the item it was called on, which then has exactly
  one.
\<close>

theorem mark_card_sold_keeps_sale_recorded_once:
  assumes inv: "sale_recorded_once s"
  shows "sale_recorded_once (snd (transaction (mark_card_sold c i p be bn) s)) \<and>
         (\<forall>t s'. transaction (mark_card_sold c i p be bn) s = (Inr t, s') \<longrightarrow>
            transactions s' = transactions s @ [t] \<and> t_inventory_id t = i \<and>
            transaction_count s' i = 1)"
proof (cases "mark_card_sold c i p be bn s")
  case (Pair r s1)
  show ?thesis
  proof (cases r)
    case (Inl e)
    with Pair inv show ?thesis by (simp add: transaction_def)
  next
    case (Inr t)
    with Pair have ok: "mark_card_sold c i p be bn s = (Inr t, s1)" by simp
    from mark_card_sold_Inr [OF ok] obtain item where
      found: "find (\<lambda>r. i_id r = i \<and> i_deleted_at r = None) (inventory s) = Some item" and
      avail: "i_status item = Available" and
      ti: "t_inventory_id t = i" and
      inv': "inventory s1 =
         map (\<lambda>r. if i_id r = i
                   then r\<lparr>i_status := Sold, i_updated_at := now c, i_updated_by := auth_uid c\<rparr>
                   else r) (inventory s)" and
      tx': "transactions s1 = transactions s @ [t]"
      by blast
    from find_SomeD [OF found] have item: "item \<in> set (inventory s)" "i_id item = i" by auto
    from inv item avail have zero: "transaction_count s i = 0"
      unfolding sale_recorded_once_def list_all_iff by fastforce
    have cnt: "transaction_count s1 j =
        (if j = i then Suc (transaction_count s j) else transaction_count s j)" for j
      unfolding transaction_count_def tx' using ti by auto
    have "sale_recorded_once s1"
      using inv zero unfolding sale_recorded_once_def list_all_iff inv'
      by (auto simp: cnt)
    with Pair Inr tx' ti zero show ?thesis by (simp add: transaction_def cnt)
  qed
qed

theorem mark_card_sold_keeps_sale_recorded_once_witness:
  "sale_recorded_once rls_test_db \<and>
   sale_recorded_once
     (snd (transaction (mark_card_sold (as_user 11) 4 (Some 24999) None None) rls_test_db)) \<and>
   transaction_count
     (snd (transaction (mark_card_sold (as_user 11) 4 (Some 24999) None None) rls_test_db)) 4 = 1"
proof -
  have h: "sale_recorded_once rls_test_db"
    by (simp add: sale_recorded_once_def transaction_count_def rls_test_db_def)
  obtain t s' where
    run: "transaction (mark_card_sold (as_user 11) 4 (Some 24999) None None) rls_test_db = (Inr t, s')"
    by (simp add: transaction_def mark_card_sold_def insert_transactions_def
        update_inventory_def rls_test_db_def as_user_def Let_def)
  from mark_card_sold_keeps_sale_recorded_once [OF h, of "as_user 11" 4 "Some 24999" None None] run
  show ?thesis using h by simp
qed

text \<open>
  C1. The property does not hold across the writes the policy \<^verbatim>\<open>"Members
  update"\<close> admits, which leave the column \<^verbatim>\<open>status\<close> writable beside
  \<^verbatim>\<open>mark_card_sold\<close>. In the database of the policy tests the member sets the
  card's status to \<open>sold\<close> with an \<^verbatim>\<open>UPDATE\<close> of their own, and the card is sold
  with no sale record; or, after a sale through \<^verbatim>\<open>mark_card_sold\<close>, the member
  sets it back to \<open>available\<close> and sells it again, and the card has two.
\<close>

theorem members_update_breaks_sale_recorded_once:
  "sale_recorded_once rls_test_db \<and>
   fst (transaction
          (client_update_inventory (as_user 11) (\<lambda>r. i_id r = 4) (\<lambda>r. r\<lparr>i_status := Sold\<rparr>))
          rls_test_db) = Inr () \<and>
   \<not> sale_recorded_once
       (snd (transaction
          (client_update_inventory (as_user 11) (\<lambda>r. i_id r = 4) (\<lambda>r. r\<lparr>i_status := Sold\<rparr>))
          rls_test_db)) \<and>
   transaction_count
     (snd (transaction (mark_card_sold (as_user 11) 4 (Some 19999) None None)
        (snd (transaction
           (client_update_inventory (as_user 11) (\<lambda>r. i_id r = 4)
              (\<lambda>r. r\<lparr>i_status := Available\<rparr>))
           (snd (transaction (mark_card_sold (as_user 11) 4 (Some 24999) None None)
              rls_test_db)))))) 4 = 2"
  by (simp add: sale_recorded_once_def transaction_count_def transaction_def
      mark_card_sold_def insert_transactions_def
      client_update_inventory_def update_inventory_def inventory_update_using_def
      inventory_select_def get_user_org_ids_def trg_inventory_updated_at_def
      trg_inventory_audit_def audit_trigger_def insert_audit_log_def rls_test_db_def
      as_user_def Let_def)

lemma trg_inventory_audit_organizations:
  "trg_inventory_audit c ev (t\<lparr>organizations := gs\<rparr>) =
     (trg_inventory_audit c ev t)\<lparr>organizations := gs\<rparr>"
  by (simp add: trg_inventory_audit_def audit_trigger_def insert_audit_log_def)

lemma update_inventory_organizations:
  "update_inventory c wh f (s\<lparr>organizations := gs\<rparr>) =
     (update_inventory c wh f s)\<lparr>organizations := gs\<rparr>"
proof -
  let ?F = "\<lambda>old. trg_inventory_audit c (Tg_update old (trg_inventory_updated_at c (f old)))"
  let ?X = "map (\<lambda>r. if wh r then trg_inventory_updated_at c (f r) else r) (inventory s)"
  have swap: "(s\<lparr>organizations := gs\<rparr>)\<lparr>inventory := ?X\<rparr> =
      (s\<lparr>inventory := ?X\<rparr>)\<lparr>organizations := gs\<rparr>"
    by (cases s) simp
  have "update_inventory c wh f (s\<lparr>organizations := gs\<rparr>) =
      fold ?F (filter wh (inventory s)) ((s\<lparr>organizations := gs\<rparr>)\<lparr>inventory := ?X\<rparr>)"
    by (simp add: update_inventory_def)
  also have "\<dots> =
      fold ?F (filter wh (inventory s)) ((s\<lparr>inventory := ?X\<rparr>)\<lparr>organizations := gs\<rparr>)"
    by (simp only: swap)
  also have "\<dots> =
      (fold ?F (filter wh (inventory s)) (s\<lparr>inventory := ?X\<rparr>))\<lparr>organizations := gs\<rparr>"
    by (rule fold_commute) (rule trg_inventory_audit_organizations)
  also have "\<dots> = (update_inventory c wh f s)\<lparr>organizations := gs\<rparr>"
    by (simp add: update_inventory_def)
  finally show ?thesis .
qed

lemma insert_transactions_organizations:
  "insert_transactions c g i p who be bn (s\<lparr>organizations := gs\<rparr>) =
     (fst (insert_transactions c g i p who be bn s),
      (snd (insert_transactions c g i p who be bn s))\<lparr>organizations := gs\<rparr>)"
  by (simp add: insert_transactions_def Let_def split: option.splits)

text \<open>
  C10. \<^verbatim>\<open>mark_card_sold\<close> does not read the soft-delete marker of the owning
  organization. For an available item that is not soft-deleted, in an
  organization that is, a caller with any membership there and a price that
  fits the column gets his sale: the call returns the new sale record, the item
  is \<open>sold\<close>, and the record is in \<^verbatim>\<open>transactions\<close>. Whatever the table
  \<^verbatim>\<open>organizations\<close> holds, the call does the same.
\<close>

theorem mark_card_sold_ignores_soft_delete:
  assumes item: "item \<in> set (inventory s)" "i_id item = i" "i_deleted_at item = None"
    and avail: "i_status item = Available"
    and pk: "distinct (map i_id (inventory s))"
    and gone: "soft_deleted s (i_organization_id item)"
    and member: "\<exists>m \<in> set (memberships s).
                   Some (m_user_id m) = auth_uid c \<and> m_organization_id m = i_organization_id item"
    and fits: "\<bar>q\<bar> < 10000000000"
  shows "(\<exists>t s'. transaction (mark_card_sold c i (Some q) be bn) s = (Inr t, s') \<and>
            t_inventory_id t = i \<and> t_organization_id t = i_organization_id item \<and>
            t_sold_price t = q \<and> t_sold_by t = auth_uid c \<and>
            transactions s' = transactions s @ [t] \<and>
            inventory s' =
              map (\<lambda>r. if i_id r = i
                        then r\<lparr>i_status := Sold, i_updated_at := now c, i_updated_by := auth_uid c\<rparr>
                        else r) (inventory s) \<and>
            organizations s' = organizations s) \<and>
         (\<forall>gs. mark_card_sold c i (Some q) be bn (s\<lparr>organizations := gs\<rparr>) =
            (fst (mark_card_sold c i (Some q) be bn s),
             (snd (mark_card_sold c i (Some q) be bn s))\<lparr>organizations := gs\<rparr>))"
proof
  have uniq: "\<forall>y \<in> set (inventory s). (i_id y = i \<and> i_deleted_at y = None) \<longrightarrow> y = item"
    using distinct_map_eq [OF pk _ item(1)] item(2) by metis
  have this_row: "i_id item = i \<and> i_deleted_at item = None"
    using item by simp
  have found: "find (\<lambda>r. i_id r = i \<and> i_deleted_at r = None) (inventory s) = Some item"
    by (rule find_only_row [OF item(1) _ uniq]) (rule this_row)
  show "\<exists>t s'. transaction (mark_card_sold c i (Some q) be bn) s = (Inr t, s') \<and>
            t_inventory_id t = i \<and> t_organization_id t = i_organization_id item \<and>
            t_sold_price t = q \<and> t_sold_by t = auth_uid c \<and>
            transactions s' = transactions s @ [t] \<and>
            inventory s' =
              map (\<lambda>r. if i_id r = i
                        then r\<lparr>i_status := Sold, i_updated_at := now c, i_updated_by := auth_uid c\<rparr>
                        else r) (inventory s) \<and>
            organizations s' = organizations s"
    using found avail member fits
    by (simp add: transaction_def mark_card_sold_def insert_transactions_def Let_def
        update_inventory_frame trg_inventory_updated_at_def)
next
  show "\<forall>gs. mark_card_sold c i (Some q) be bn (s\<lparr>organizations := gs\<rparr>) =
            (fst (mark_card_sold c i (Some q) be bn s),
             (snd (mark_card_sold c i (Some q) be bn s))\<lparr>organizations := gs\<rparr>)"
    unfolding mark_card_sold_def
    by (auto split: option.splits
        simp: Let_def update_inventory_organizations insert_transactions_organizations)
qed


theorem mark_card_sold_ignores_soft_delete_witness:
  "soft_deleted soft_deleted_test_db 1 \<and>
   fst (transaction (mark_card_sold (as_user 11) 4 (Some 24999) None None) soft_deleted_test_db) =
     Inr \<lparr>t_id = 101, t_organization_id = 1, t_inventory_id = 4, t_sold_price = 24999,
          t_sold_at = 1000, t_sold_by = Some 11, t_buyer_email = None, t_buyer_notes = None,
          t_created_at = 1000\<rparr> \<and>
   map i_status
     (inventory (snd (transaction (mark_card_sold (as_user 11) 4 (Some 24999) None None)
        soft_deleted_test_db))) = [Sold]"
proof -
  let ?item = "\<lparr>i_id = 4, i_organization_id = 1, i_card_name = ''Test Card'',
                 i_status = Available, i_updated_at = 0, i_updated_by = None,
                 i_deleted_at = None\<rparr>"
  have h1: "?item \<in> set (inventory soft_deleted_test_db)"
    by (simp add: soft_deleted_test_db_def rls_test_db_def)
  have h2: "distinct (map i_id (inventory soft_deleted_test_db))"
    by (simp add: soft_deleted_test_db_def rls_test_db_def)
  have h3: "soft_deleted soft_deleted_test_db (i_organization_id ?item)"
    by (simp add: soft_deleted_def soft_deleted_test_db_def rls_test_db_def)
  have h4: "\<exists>m \<in> set (memberships soft_deleted_test_db).
      Some (m_user_id m) = auth_uid (as_user 11) \<and> m_organization_id m = i_organization_id ?item"
    by (simp add: soft_deleted_test_db_def rls_test_db_def as_user_def)
  have h5: "\<bar>24999 :: int\<bar> < 10000000000" by simp
  from mark_card_sold_ignores_soft_delete [OF h1 _ _ _ h2 h3 h4 h5, of 4 None None]
  obtain t s' where
    run: "transaction (mark_card_sold (as_user 11) 4 (Some 24999) None None) soft_deleted_test_db =
            (Inr t, s')"
    and t: "t_inventory_id t = 4"
    and inv: "inventory s' =
        map (\<lambda>r. if i_id r = 4
                  then r\<lparr>i_status := Sold, i_updated_at := now (as_user 11),
                         i_updated_by := auth_uid (as_user 11)\<rparr>
                  else r) (inventory soft_deleted_test_db)"
    by auto
  have ev: "fst (transaction (mark_card_sold (as_user 11) 4 (Some 24999) None None)
        soft_deleted_test_db) =
     Inr \<lparr>t_id = 101, t_organization_id = 1, t_inventory_id = 4, t_sold_price = 24999,
          t_sold_at = 1000, t_sold_by = Some 11, t_buyer_email = None, t_buyer_notes = None,
          t_created_at = 1000\<rparr>"
    by (simp add: transaction_def mark_card_sold_def insert_transactions_def Let_def
        update_inventory_frame soft_deleted_test_db_def rls_test_db_def as_user_def)
  from h3 have "soft_deleted soft_deleted_test_db 1" by simp
  moreover have "map i_status (inventory s') = [Sold]"
    unfolding inv by (simp add: soft_deleted_test_db_def rls_test_db_def)
  ultimately show ?thesis using run ev by simp
qed

subsection \<open>\<^verbatim>\<open>leave_organization\<close>\<close>

lemma find_membership:
  assumes uq: "distinct (map (\<lambda>m. (m_user_id m, m_organization_id m)) (memberships s))"
    and mine: "mine \<in> set (memberships s)"
    and who: "Some (m_user_id mine) = auth_uid c" "m_organization_id mine = g"
  shows "find (\<lambda>m. Some (m_user_id m) = auth_uid c \<and> m_organization_id m = g) (memberships s) =
           Some mine"
proof -
  have uniq: "\<forall>y \<in> set (memberships s).
      (Some (m_user_id y) = auth_uid c \<and> m_organization_id y = g) \<longrightarrow> y = mine"
    using distinct_map_eq [OF uq _ mine] who by (metis option.inject)
  have this_row: "Some (m_user_id mine) = auth_uid c \<and> m_organization_id mine = g"
    using who by simp
  show ?thesis
    by (rule find_only_row [OF mine _ uniq]) (rule this_row)
qed

lemma delete_by_id:
  assumes pk: "distinct (map m_id xs)" and mine: "mine \<in> set xs"
  shows "filter (\<lambda>r. \<not> m_id r = m_id mine) xs = remove1 mine xs"
proof -
  from pk have dm: "distinct xs" by (simp add: distinct_map)
  have "filter (\<lambda>r. \<not> m_id r = m_id mine) xs = filter (\<lambda>r. r \<noteq> mine) xs"
  proof (rule filter_cong [OF refl])
    fix r assume "r \<in> set xs"
    with distinct_map_eq [OF pk this mine] show "(\<not> m_id r = m_id mine) = (r \<noteq> mine)" by metis
  qed
  also have "\<dots> = removeAll mine xs"
    by (induction xs) auto
  also have "\<dots> = remove1 mine xs"
    using dm by (simp add: distinct_remove1_removeAll)
  finally show ?thesis .
qed

text \<open>
  C7. In a database that keeps the primary key of \<^verbatim>\<open>memberships\<close> and its
  \<^verbatim>\<open>UNIQUE (user_id, organization_id)\<close>: called by the only owner of the
  organization, \<^verbatim>\<open>leave_organization\<close> raises the sole-owner exception and the
  database is as before; called by a member who is not the only owner, it
  deletes the caller's membership row and no other, and touches no other table
  but the audit log; called by somebody with no membership there, it raises
  and the database is as before.
\<close>

theorem leave_organization_outcomes:
  assumes pk: "distinct (map m_id (memberships s))"
    and uq: "distinct (map (\<lambda>m. (m_user_id m, m_organization_id m)) (memberships s))"
  shows "(mine \<in> set (memberships s) \<and> Some (m_user_id mine) = auth_uid c \<and>
          m_organization_id mine = g \<and> m_role mine = Owner \<and> owner_count s g = 1 \<longrightarrow>
            transaction (leave_organization c g) s = (Inl Cannot_leave_only_owner, s)) \<and>
         (mine \<in> set (memberships s) \<and> Some (m_user_id mine) = auth_uid c \<and>
          m_organization_id mine = g \<and> (m_role mine \<noteq> Owner \<or> 1 < owner_count s g) \<longrightarrow>
            (\<exists>s'. transaction (leave_organization c g) s = (Inr (), s') \<and>
                  memberships s' = remove1 mine (memberships s) \<and>
                  length (memberships s') = length (memberships s) - 1 \<and>
                  mine \<notin> set (memberships s') \<and>
                  organizations s' = organizations s \<and> inventory s' = inventory s \<and>
                  transactions s' = transactions s \<and> invites s' = invites s)) \<and>
         (\<not> (\<exists>m \<in> set (memberships s).
                Some (m_user_id m) = auth_uid c \<and> m_organization_id m = g) \<longrightarrow>
            transaction (leave_organization c g) s = (Inl Not_a_member_of_this_organization, s))"
proof (intro conjI impI)
  assume a: "mine \<in> set (memberships s) \<and> Some (m_user_id mine) = auth_uid c \<and>
          m_organization_id mine = g \<and> m_role mine = Owner \<and> owner_count s g = 1"
  then have "find (\<lambda>m. Some (m_user_id m) = auth_uid c \<and> m_organization_id m = g) (memberships s) =
           Some mine"
    by (intro find_membership [OF uq]) simp_all
  with a show "transaction (leave_organization c g) s = (Inl Cannot_leave_only_owner, s)"
    by (simp add: transaction_def leave_organization_def owner_count_def)
next
  assume a: "mine \<in> set (memberships s) \<and> Some (m_user_id mine) = auth_uid c \<and>
          m_organization_id mine = g \<and> (m_role mine \<noteq> Owner \<or> 1 < owner_count s g)"
  then have mine: "mine \<in> set (memberships s)" by simp
  from a have f: "find (\<lambda>m. Some (m_user_id m) = auth_uid c \<and> m_organization_id m = g) (memberships s) =
           Some mine"
    by (intro find_membership [OF uq]) simp_all
  from a have r: "m_role mine \<noteq> Owner \<or> 1 < owner_count s g" by simp
  have run: "transaction (leave_organization c g) s =
      (Inr (), delete_memberships c (\<lambda>m. m_id m = m_id mine) s)"
    using f r by (auto simp: transaction_def leave_organization_def Let_def owner_count_def)
  from pk have dm: "distinct (memberships s)" by (simp add: distinct_map)
  show "\<exists>s'. transaction (leave_organization c g) s = (Inr (), s') \<and>
                  memberships s' = remove1 mine (memberships s) \<and>
                  length (memberships s') = length (memberships s) - 1 \<and>
                  mine \<notin> set (memberships s') \<and>
                  organizations s' = organizations s \<and> inventory s' = inventory s \<and>
                  transactions s' = transactions s \<and> invites s' = invites s"
    using mine dm
    by (simp add: run delete_memberships_frame delete_by_id [OF pk mine] length_remove1)
next
  assume "\<not> (\<exists>m \<in> set (memberships s).
                Some (m_user_id m) = auth_uid c \<and> m_organization_id m = g)"
  then have "find (\<lambda>m. Some (m_user_id m) = auth_uid c \<and> m_organization_id m = g) (memberships s) = None"
    by (simp add: find_None_iff)
  then show "transaction (leave_organization c g) s = (Inl Not_a_member_of_this_organization, s)"
    by (simp add: transaction_def leave_organization_def)
qed


theorem leave_organization_outcomes_witness:
  "transaction (leave_organization (as_user 10) 1) rls_test_db =
     (Inl Cannot_leave_only_owner, rls_test_db) \<and>
   (\<exists>s'. transaction (leave_organization (as_user 11) 1) rls_test_db = (Inr (), s') \<and>
         map m_user_id (memberships s') = [10]) \<and>
   transaction (leave_organization (as_user 12) 1) rls_test_db =
     (Inl Not_a_member_of_this_organization, rls_test_db)"
proof -
  let ?owner = "\<lparr>m_id = 2, m_user_id = 10, m_organization_id = 1, m_role = Owner,
                  m_invited_by = None, m_invited_at = None, m_accepted_at = Some 0,
                  m_created_at = 0\<rparr>"
  let ?member = "\<lparr>m_id = 3, m_user_id = 11, m_organization_id = 1, m_role = Member,
                   m_invited_by = None, m_invited_at = None, m_accepted_at = Some 0,
                   m_created_at = 0\<rparr>"
  have pk: "distinct (map m_id (memberships rls_test_db))"
    by (simp add: rls_test_db_def)
  have uq: "distinct (map (\<lambda>m. (m_user_id m, m_organization_id m)) (memberships rls_test_db))"
    by (simp add: rls_test_db_def)
  have ms: "memberships rls_test_db = [?owner, ?member]"
    by (simp add: rls_test_db_def)
  have sole: "transaction (leave_organization (as_user 10) 1) rls_test_db =
     (Inl Cannot_leave_only_owner, rls_test_db)"
    using leave_organization_outcomes [OF pk uq, of ?owner "as_user 10" 1]
    by (simp add: ms owner_count_def as_user_def)
  have leaves: "\<exists>s'. transaction (leave_organization (as_user 11) 1) rls_test_db = (Inr (), s') \<and>
         map m_user_id (memberships s') = [10]"
    using leave_organization_outcomes [OF pk uq, of ?member "as_user 11" 1]
    by (auto simp add: ms owner_count_def as_user_def)
  have outsider: "transaction (leave_organization (as_user 12) 1) rls_test_db =
     (Inl Not_a_member_of_this_organization, rls_test_db)"
    using leave_organization_outcomes [OF pk uq, of ?owner "as_user 12" 1]
    by (simp add: ms as_user_def)
  from sole leaves outsider show ?thesis by blast
qed

subsection \<open>\<^verbatim>\<open>accept_invite\<close>\<close>

lemma find_map_update:
  assumes "\<And>x. P (f x) = P x"
  shows "find P (map f xs) = map_option f (find P xs)"
  using assms by (induction xs) simp_all

lemma insert_memberships_Inr:
  assumes "insert_memberships c who g r ib ia aa s = (Inr m, s')"
  shows "\<exists>u. who = Some u \<and>
           \<not> (\<exists>x \<in> set (memberships s). m_user_id x = u \<and> m_organization_id x = g) \<and>
           m = \<lparr>m_id = next_uuid s, m_user_id = u, m_organization_id = g, m_role = r,
                m_invited_by = ib, m_invited_at = ia, m_accepted_at = aa, m_created_at = now c\<rparr> \<and>
           memberships s' = memberships s @ [m] \<and>
           organizations s' = organizations s \<and> inventory s' = inventory s \<and>
           transactions s' = transactions s \<and> invites s' = invites s \<and>
           auth_users s' = auth_users s \<and>
           length (audit_log s') = Suc (length (audit_log s))"
  using assms unfolding insert_memberships_def
  by (auto split: option.splits if_splits simp: Let_def trg_memberships_audit_frame)

lemma insert_memberships_Inl:
  assumes "insert_memberships c who g r ib ia aa s = (Inl e, s')"
  shows "s' = s"
  using assms unfolding insert_memberships_def
  by (auto split: option.splits if_splits simp: Let_def)

lemma accept_invite_Inr:
  assumes "accept_invite c tok s = (Inr m, s')"
  shows "\<exists>v u. find (\<lambda>v. v_token v = tok) (invites s) = Some v \<and>
           v_revoked_at v = None \<and> v_accepted_at v = None \<and> \<not> expired c v \<and>
           \<not> soft_deleted s (v_organization_id v) \<and>
           \<not> sql_neq (map_option (lower s) (current_user_email c s)) (Some (lower s (v_email v))) \<and>
           auth_uid c = Some u \<and>
           \<not> (\<exists>x \<in> set (memberships s). m_user_id x = u \<and>
                  m_organization_id x = v_organization_id v) \<and>
           m = \<lparr>m_id = next_uuid s, m_user_id = u, m_organization_id = v_organization_id v,
                m_role = v_role v, m_invited_by = v_invited_by v,
                m_invited_at = Some (v_created_at v), m_accepted_at = Some (now c),
                m_created_at = now c\<rparr> \<and>
           memberships s' = memberships s @ [m] \<and>
           invites s' =
             map (\<lambda>x. if v_id x = v_id v then x\<lparr>v_accepted_at := Some (now c)\<rparr> else x)
               (invites s) \<and>
           organizations s' = organizations s \<and> inventory s' = inventory s \<and>
           transactions s' = transactions s \<and>
           length (audit_log s') = Suc (length (audit_log s))"
proof -
  from assms obtain v where
    found: "find (\<lambda>v. v_token v = tok) (invites s) = Some v"
    unfolding accept_invite_def by (auto split: option.splits)
  from assms found have checks:
    "v_revoked_at v = None" "v_accepted_at v = None" "\<not> expired c v"
    "\<not> soft_deleted s (v_organization_id v)"
    "\<not> sql_neq (map_option (lower s) (current_user_email c s)) (Some (lower s (v_email v)))"
    unfolding accept_invite_def expired_def soft_deleted_def
    by (auto split: if_splits)
  from assms found checks obtain s1 where
    ins: "insert_memberships c (auth_uid c) (v_organization_id v) (v_role v) (v_invited_by v)
            (Some (v_created_at v)) (Some (now c)) s = (Inr m, s1)"
    and s': "s' = update_invites (\<lambda>x. v_id x = v_id v) (\<lambda>x. x\<lparr>v_accepted_at := Some (now c)\<rparr>) s1"
    unfolding accept_invite_def expired_def soft_deleted_def
    by (auto split: if_splits prod.splits sum.splits)
  from insert_memberships_Inr [OF ins] found checks s' show ?thesis
    by (auto simp: update_invites_def)
qed


text \<open>
  C4. After a call of \<^verbatim>\<open>accept_invite\<close> with a token has succeeded, a call with
  the same token, by any caller at any time, raises \<^verbatim>\<open>Invite has already been
  used\<close> and leaves the database as it found it, so the next call meets the same
  database. More generally, in any database where the token's invite is marked
  accepted, the call raises that exception, or \<^verbatim>\<open>Invite has been revoked\<close> when
  the invite was revoked as well, and changes nothing.
\<close>

theorem accept_invite_at_most_once:
  assumes first: "transaction (accept_invite c tok) s = (Inr m, s')"
  shows "transaction (accept_invite c' tok) s' = (Inl Invite_has_already_been_used, s') \<and>
         (\<forall>c'' s'' v. find (\<lambda>v. v_token v = tok) (invites s'') = Some v \<and>
                        v_accepted_at v \<noteq> None \<longrightarrow>
            transaction (accept_invite c'' tok) s'' = (Inl Invite_has_been_revoked, s'') \<or>
            transaction (accept_invite c'' tok) s'' = (Inl Invite_has_already_been_used, s''))"
proof
  from first have "accept_invite c tok s = (Inr m, s')"
    by (auto dest: transaction_cases)
  from accept_invite_Inr [OF this] obtain v where
    found: "find (\<lambda>v. v_token v = tok) (invites s) = Some v" and
    live: "v_revoked_at v = None" and
    inv': "invites s' =
             map (\<lambda>x. if v_id x = v_id v then x\<lparr>v_accepted_at := Some (now c)\<rparr> else x)
               (invites s)"
    by blast
  have "find (\<lambda>v. v_token v = tok) (invites s') =
      map_option (\<lambda>x. if v_id x = v_id v then x\<lparr>v_accepted_at := Some (now c)\<rparr> else x)
        (find (\<lambda>v. v_token v = tok) (invites s))"
    unfolding inv' by (rule find_map_update) simp
  with found have "find (\<lambda>v. v_token v = tok) (invites s') = Some (v\<lparr>v_accepted_at := Some (now c)\<rparr>)"
    by simp
  with live show "transaction (accept_invite c' tok) s' = (Inl Invite_has_already_been_used, s')"
    by (simp add: transaction_def accept_invite_def)
next
  show "\<forall>c'' s'' v. find (\<lambda>v. v_token v = tok) (invites s'') = Some v \<and>
                        v_accepted_at v \<noteq> None \<longrightarrow>
            transaction (accept_invite c'' tok) s'' = (Inl Invite_has_been_revoked, s'') \<or>
            transaction (accept_invite c'' tok) s'' = (Inl Invite_has_already_been_used, s'')"
    by (auto simp: transaction_def accept_invite_def)
qed

theorem accept_invite_at_most_once_witness:
  "(\<exists>m s'. transaction (accept_invite (as_user 12) ''t0k3n'') invite_test_db = (Inr m, s') \<and>
           m_user_id m = 12 \<and> m_role m = Admin \<and>
           transaction (accept_invite (as_user 12) ''t0k3n'') s' =
             (Inl Invite_has_already_been_used, s'))"
proof -
  have lo: "ascii_lower ''outsider@test.com'' = ''outsider@test.com''"
    "ascii_lower ''Outsider@Test.com'' = ''outsider@test.com''"
    by code_simp+
  obtain m s' where
    run: "transaction (accept_invite (as_user 12) ''t0k3n'') invite_test_db = (Inr m, s')"
    and m: "m_user_id m = 12" "m_role m = Admin"
    by (simp add: transaction_def accept_invite_def insert_memberships_def
        current_user_email_def lo
        invite_test_db_def test_invite_def rls_test_db_def as_user_def Let_def)
  from accept_invite_at_most_once [OF run, of "as_user 12"] run m show ?thesis by blast
qed

text \<open>
  For a caller whose row of \<^verbatim>\<open>auth.users\<close> has an email, \<^verbatim>\<open>accept_invite\<close>
  checks in this order, each failure raising its own exception and leaving the
  database as it was: the token is that of an invite; the invite is not revoked;
  not accepted; not expired; its organization is not soft-deleted; the caller's
  email equals the invite's in lower case. When all pass and the caller has no
  membership in the organization yet, the call succeeds; and whenever it
  succeeds all passed, the new membership is the caller's, in the invite's
  organization with the invite's role, and the invite is marked accepted.
\<close>

theorem accept_invite_validation_order:
  assumes email: "current_user_email c s = Some e"
  shows "(find (\<lambda>v. v_token v = tok) (invites s) = None \<longrightarrow>
            transaction (accept_invite c tok) s = (Inl Invalid_invite_token, s)) \<and>
         (\<forall>v. find (\<lambda>v. v_token v = tok) (invites s) = Some v \<longrightarrow>
            (v_revoked_at v \<noteq> None \<longrightarrow>
               transaction (accept_invite c tok) s = (Inl Invite_has_been_revoked, s)) \<and>
            (v_revoked_at v = None \<and> v_accepted_at v \<noteq> None \<longrightarrow>
               transaction (accept_invite c tok) s = (Inl Invite_has_already_been_used, s)) \<and>
            (v_revoked_at v = None \<and> v_accepted_at v = None \<and> expired c v \<longrightarrow>
               transaction (accept_invite c tok) s = (Inl Invite_has_expired, s)) \<and>
            (v_revoked_at v = None \<and> v_accepted_at v = None \<and> \<not> expired c v \<and>
             soft_deleted s (v_organization_id v) \<longrightarrow>
               transaction (accept_invite c tok) s = (Inl Organization_no_longer_exists, s)) \<and>
            (v_revoked_at v = None \<and> v_accepted_at v = None \<and> \<not> expired c v \<and>
             \<not> soft_deleted s (v_organization_id v) \<and> lower s e \<noteq> lower s (v_email v) \<longrightarrow>
               transaction (accept_invite c tok) s =
                 (Inl Invite_is_for_a_different_email_address, s)) \<and>
            (v_revoked_at v = None \<and> v_accepted_at v = None \<and> \<not> expired c v \<and>
             \<not> soft_deleted s (v_organization_id v) \<and> lower s e = lower s (v_email v) \<and>
             \<not> (\<exists>x \<in> set (memberships s).
                    Some (m_user_id x) = auth_uid c \<and>
                    m_organization_id x = v_organization_id v) \<longrightarrow>
               (\<exists>m s'. transaction (accept_invite c tok) s = (Inr m, s')))) \<and>
         (\<forall>m s'. transaction (accept_invite c tok) s = (Inr m, s') \<longrightarrow>
            (\<exists>v. find (\<lambda>v. v_token v = tok) (invites s) = Some v \<and>
               v_revoked_at v = None \<and> v_accepted_at v = None \<and> \<not> expired c v \<and>
               \<not> soft_deleted s (v_organization_id v) \<and> lower s e = lower s (v_email v) \<and>
               Some (m_user_id m) = auth_uid c \<and>
               m_organization_id m = v_organization_id v \<and> m_role m = v_role v \<and>
               memberships s' = memberships s @ [m] \<and>
               invites s' =
                 map (\<lambda>x. if v_id x = v_id v then x\<lparr>v_accepted_at := Some (now c)\<rparr> else x)
                   (invites s)))"
proof (intro conjI allI impI)
  assume "find (\<lambda>v. v_token v = tok) (invites s) = None"
  then show "transaction (accept_invite c tok) s = (Inl Invalid_invite_token, s)"
    by (simp add: transaction_def accept_invite_def)
next
  fix v assume "find (\<lambda>v. v_token v = tok) (invites s) = Some v" "v_revoked_at v \<noteq> None"
  then show "transaction (accept_invite c tok) s = (Inl Invite_has_been_revoked, s)"
    by (simp add: transaction_def accept_invite_def)
next
  fix v assume "find (\<lambda>v. v_token v = tok) (invites s) = Some v"
    "v_revoked_at v = None \<and> v_accepted_at v \<noteq> None"
  then show "transaction (accept_invite c tok) s = (Inl Invite_has_already_been_used, s)"
    by (simp add: transaction_def accept_invite_def)
next
  fix v assume "find (\<lambda>v. v_token v = tok) (invites s) = Some v"
    "v_revoked_at v = None \<and> v_accepted_at v = None \<and> expired c v"
  then show "transaction (accept_invite c tok) s = (Inl Invite_has_expired, s)"
    by (simp add: transaction_def accept_invite_def expired_def)
next
  fix v assume "find (\<lambda>v. v_token v = tok) (invites s) = Some v"
    "v_revoked_at v = None \<and> v_accepted_at v = None \<and> \<not> expired c v \<and>
             soft_deleted s (v_organization_id v)"
  then show "transaction (accept_invite c tok) s = (Inl Organization_no_longer_exists, s)"
    by (simp add: transaction_def accept_invite_def expired_def soft_deleted_def)
next
  fix v assume "find (\<lambda>v. v_token v = tok) (invites s) = Some v"
    "v_revoked_at v = None \<and> v_accepted_at v = None \<and> \<not> expired c v \<and>
             \<not> soft_deleted s (v_organization_id v) \<and> lower s e \<noteq> lower s (v_email v)"
  then show "transaction (accept_invite c tok) s =
                 (Inl Invite_is_for_a_different_email_address, s)"
    by (simp add: transaction_def accept_invite_def expired_def soft_deleted_def email)
next
  fix v assume found: "find (\<lambda>v. v_token v = tok) (invites s) = Some v"
    and ok: "v_revoked_at v = None \<and> v_accepted_at v = None \<and> \<not> expired c v \<and>
             \<not> soft_deleted s (v_organization_id v) \<and> lower s e = lower s (v_email v) \<and>
             \<not> (\<exists>x \<in> set (memberships s).
                    Some (m_user_id x) = auth_uid c \<and>
                    m_organization_id x = v_organization_id v)"
  from email obtain u where u: "auth_uid c = Some u"
    by (auto simp: current_user_email_def split: option.splits)
  from found ok u show "\<exists>m s'. transaction (accept_invite c tok) s = (Inr m, s')"
    by (simp add: transaction_def accept_invite_def expired_def soft_deleted_def email
        insert_memberships_def Let_def)
next
  fix m s' assume "transaction (accept_invite c tok) s = (Inr m, s')"
  then have "accept_invite c tok s = (Inr m, s')"
    by (auto dest: transaction_cases)
  from accept_invite_Inr [OF this] show
    "\<exists>v. find (\<lambda>v. v_token v = tok) (invites s) = Some v \<and>
               v_revoked_at v = None \<and> v_accepted_at v = None \<and> \<not> expired c v \<and>
               \<not> soft_deleted s (v_organization_id v) \<and> lower s e = lower s (v_email v) \<and>
               Some (m_user_id m) = auth_uid c \<and>
               m_organization_id m = v_organization_id v \<and> m_role m = v_role v \<and>
               memberships s' = memberships s @ [m] \<and>
               invites s' =
                 map (\<lambda>x. if v_id x = v_id v then x\<lparr>v_accepted_at := Some (now c)\<rparr> else x)
                   (invites s)"
    by (auto simp: email)
qed


theorem accept_invite_validation_order_witness:
  "transaction (accept_invite (as_user 12) ''n0n3'') invite_test_db =
     (Inl Invalid_invite_token, invite_test_db) \<and>
   transaction (accept_invite \<lparr>auth_uid = Some 12, now = 700000\<rparr> ''t0k3n'') invite_test_db =
     (Inl Invite_has_expired, invite_test_db) \<and>
   transaction (accept_invite (as_user 11) ''t0k3n'') invite_test_db =
     (Inl Invite_is_for_a_different_email_address, invite_test_db) \<and>
   (\<exists>m s'. transaction (accept_invite (as_user 12) ''t0k3n'') invite_test_db = (Inr m, s'))"
proof -
  have lo: "ascii_lower ''outsider@test.com'' = ''outsider@test.com''"
    "ascii_lower ''Outsider@Test.com'' = ''outsider@test.com''"
    "ascii_lower ''member@test.com'' = ''member@test.com''"
    by code_simp+
  have lw: "lower invite_test_db = ascii_lower"
    by (simp add: invite_test_db_def rls_test_db_def)
  have e12: "current_user_email (as_user 12) invite_test_db = Some ''outsider@test.com''"
    by (simp add: current_user_email_def invite_test_db_def rls_test_db_def as_user_def)
  have e12': "current_user_email \<lparr>auth_uid = Some 12, now = 700000\<rparr> invite_test_db =
      Some ''outsider@test.com''"
    by (simp add: current_user_email_def invite_test_db_def rls_test_db_def)
  have e11: "current_user_email (as_user 11) invite_test_db = Some ''member@test.com''"
    by (simp add: current_user_email_def invite_test_db_def rls_test_db_def as_user_def)
  have none: "find (\<lambda>v. v_token v = ''n0n3'') (invites invite_test_db) = None"
    by (simp add: invite_test_db_def test_invite_def)
  have some: "find (\<lambda>v. v_token v = ''t0k3n'') (invites invite_test_db) = Some test_invite"
    by (simp add: invite_test_db_def test_invite_def)
  have live: "\<not> soft_deleted invite_test_db (v_organization_id test_invite)"
    by (simp add: soft_deleted_def invite_test_db_def rls_test_db_def)
  have new: "\<not> (\<exists>x \<in> set (memberships invite_test_db).
      Some (m_user_id x) = auth_uid (as_user 12) \<and>
      m_organization_id x = v_organization_id test_invite)"
    by (simp add: invite_test_db_def rls_test_db_def as_user_def)
  have row: "v_revoked_at test_invite = None" "v_accepted_at test_invite = None"
    "\<not> expired (as_user 12) test_invite" "\<not> expired (as_user 11) test_invite"
    "expired \<lparr>auth_uid = Some 12, now = 700000\<rparr> test_invite"
    "lower invite_test_db ''member@test.com'' \<noteq> lower invite_test_db (v_email test_invite)"
    "lower invite_test_db ''outsider@test.com'' = lower invite_test_db (v_email test_invite)"
    by (simp_all add: test_invite_def expired_def as_user_def lw lo)
  have a: "transaction (accept_invite (as_user 12) ''n0n3'') invite_test_db =
     (Inl Invalid_invite_token, invite_test_db)"
    using accept_invite_validation_order [OF e12, of "''n0n3''"] none by blast
  have b: "transaction (accept_invite \<lparr>auth_uid = Some 12, now = 700000\<rparr> ''t0k3n'') invite_test_db =
     (Inl Invite_has_expired, invite_test_db)"
    using accept_invite_validation_order [OF e12', of "''t0k3n''"] some row by blast
  have c: "transaction (accept_invite (as_user 11) ''t0k3n'') invite_test_db =
     (Inl Invite_is_for_a_different_email_address, invite_test_db)"
    using accept_invite_validation_order [OF e11, of "''t0k3n''"] some live row by blast
  have d: "\<exists>m s'. transaction (accept_invite (as_user 12) ''t0k3n'') invite_test_db = (Inr m, s')"
    using accept_invite_validation_order [OF e12, of "''t0k3n''"] some live row new by blast
  from a b c d show ?thesis by blast
qed

text \<open>
  A caller with no email, that is with no session or with a row of
  \<^verbatim>\<open>auth.users\<close> whose email is null, does not meet the email check: the
  comparison is null and its \<^verbatim>\<open>IF\<close> is not taken. With no session the insert of
  the membership then fails on \<^verbatim>\<open>user_id NOT NULL\<close> and nothing changes; a
  signed-in caller with no email gets the membership.
\<close>

theorem accept_invite_skips_email_check_without_email:
  assumes none: "current_user_email c s = None"
    and found: "find (\<lambda>v. v_token v = tok) (invites s) = Some v"
    and live: "v_revoked_at v = None" "v_accepted_at v = None" "\<not> expired c v"
      "\<not> soft_deleted s (v_organization_id v)"
  shows "(auth_uid c = None \<longrightarrow>
            transaction (accept_invite c tok) s = (Inl (Not_null_violation ''user_id''), s)) \<and>
         (auth_uid c = Some u \<and>
          \<not> (\<exists>x \<in> set (memberships s).
                 m_user_id x = u \<and> m_organization_id x = v_organization_id v) \<longrightarrow>
            (\<exists>m s'. transaction (accept_invite c tok) s = (Inr m, s') \<and>
               m_user_id m = u \<and> m_organization_id m = v_organization_id v \<and>
               m_role m = v_role v \<and> memberships s' = memberships s @ [m]))"
  using assms
  by (auto simp: transaction_def accept_invite_def expired_def soft_deleted_def
      insert_memberships_def Let_def update_invites_def trg_memberships_audit_frame)

theorem accept_invite_skips_email_check_without_email_witness:
  "transaction (accept_invite \<lparr>auth_uid = None, now = 1000\<rparr> ''t0k3n'') invite_test_db =
     (Inl (Not_null_violation ''user_id''), invite_test_db) \<and>
   (\<exists>m s'. transaction (accept_invite (as_user 13) ''t0k3n'') no_email_test_db = (Inr m, s') \<and>
      m_user_id m = 13 \<and> m_role m = Admin)"
proof -
  let ?anon = "\<lparr>auth_uid = None, now = 1000\<rparr>"
  have g: "current_user_email ?anon invite_test_db = None"
    "find (\<lambda>v. v_token v = ''t0k3n'') (invites invite_test_db) = Some test_invite"
    "\<not> expired ?anon test_invite"
    "\<not> soft_deleted invite_test_db (v_organization_id test_invite)"
    "auth_uid ?anon = None"
    by (simp_all add: current_user_email_def invite_test_db_def test_invite_def expired_def
        soft_deleted_def rls_test_db_def)
  have h: "current_user_email (as_user 13) no_email_test_db = None"
    "find (\<lambda>v. v_token v = ''t0k3n'') (invites no_email_test_db) = Some test_invite"
    "v_revoked_at test_invite = None" "v_accepted_at test_invite = None"
    "\<not> expired (as_user 13) test_invite"
    "\<not> soft_deleted no_email_test_db (v_organization_id test_invite)"
    "auth_uid (as_user 13) = Some 13"
    "\<not> (\<exists>x \<in> set (memberships no_email_test_db).
           m_user_id x = 13 \<and> m_organization_id x = v_organization_id test_invite)"
    "v_role test_invite = Admin"
    by (simp_all add: current_user_email_def no_email_test_db_def invite_test_db_def
        test_invite_def expired_def soft_deleted_def rls_test_db_def as_user_def)
  have a: "transaction (accept_invite ?anon ''t0k3n'') invite_test_db =
     (Inl (Not_null_violation ''user_id''), invite_test_db)"
    using accept_invite_skips_email_check_without_email
      [OF g(1) g(2) h(3) h(4) g(3) g(4)] g(5)
    by blast
  have b: "\<exists>m s'. transaction (accept_invite (as_user 13) ''t0k3n'') no_email_test_db =
      (Inr m, s') \<and> m_user_id m = 13 \<and> m_role m = Admin"
    using accept_invite_skips_email_check_without_email
      [OF h(1) h(2) h(3) h(4) h(5) h(6), of 13] h(7) h(8) h(9)
    by metis
  from a b show ?thesis by blast
qed

text \<open>
  C5. The checks run in the order claimed, each raising its own exception
  before any write, but it is not only when all of them pass that the
  membership is inserted: the caller's email is compared with \<^verbatim>\<open>!=\<close>, which is
  null when the caller has no email, and the \<^verbatim>\<open>IF\<close> that raises \<^verbatim>\<open>Invite is for
  a different email address\<close> is then not taken. User 13, signed in and with no
  email, calls \<^verbatim>\<open>accept_invite\<close> with the token of the invite addressed to
  \<^verbatim>\<open>Outsider@Test.com\<close>: the call returns a membership that makes user 13 an
  admin of the organization, and marks the invite accepted.
\<close>

theorem caller_without_email_accepts_invite_of_another:
  "current_user_email (as_user 13) no_email_test_db = None \<and>
   find (\<lambda>v. v_token v = ''t0k3n'') (invites no_email_test_db) = Some test_invite \<and>
   v_email test_invite = ''Outsider@Test.com'' \<and>
   fst (transaction (accept_invite (as_user 13) ''t0k3n'') no_email_test_db) =
     Inr \<lparr>m_id = 100, m_user_id = 13, m_organization_id = 1, m_role = Admin,
          m_invited_by = Some 10, m_invited_at = Some 900, m_accepted_at = Some 1000,
          m_created_at = 1000\<rparr> \<and>
   memberships (snd (transaction (accept_invite (as_user 13) ''t0k3n'') no_email_test_db)) =
     memberships no_email_test_db @
       [\<lparr>m_id = 100, m_user_id = 13, m_organization_id = 1, m_role = Admin,
         m_invited_by = Some 10, m_invited_at = Some 900, m_accepted_at = Some 1000,
         m_created_at = 1000\<rparr>] \<and>
   invites (snd (transaction (accept_invite (as_user 13) ''t0k3n'') no_email_test_db)) =
     [test_invite\<lparr>v_accepted_at := Some 1000\<rparr>]"
  by (simp add: transaction_def accept_invite_def insert_memberships_def update_invites_def
      current_user_email_def trg_memberships_audit_def audit_trigger_def
      insert_audit_log_def no_email_test_db_def invite_test_db_def test_invite_def
      rls_test_db_def as_user_def Let_def)

subsection \<open>\<^verbatim>\<open>create_organization\<close>\<close>

lemma trg_organizations_audit_insert_frame:
  "auth_users (trg_organizations_audit c (Tg_insert new) s) = auth_users s"
  "organizations (trg_organizations_audit c (Tg_insert new) s) = organizations s"
  "memberships (trg_organizations_audit c (Tg_insert new) s) = memberships s"
  "inventory (trg_organizations_audit c (Tg_insert new) s) = inventory s"
  "transactions (trg_organizations_audit c (Tg_insert new) s) = transactions s"
  "invites (trg_organizations_audit c (Tg_insert new) s) = invites s"
  "inventory_images (trg_organizations_audit c (Tg_insert new) s) = inventory_images s"
  "next_uuid (trg_organizations_audit c (Tg_insert new) s) = Suc (next_uuid s)"
  "length (audit_log (trg_organizations_audit c (Tg_insert new) s)) = Suc (length (audit_log s))"
  by (simp_all add: trg_organizations_audit_def audit_trigger_organizations_def
      insert_audit_log_frame)

lemma insert_organizations_Inr:
  assumes "insert_organizations c nm sl s = (Inr g, s')"
  shows "\<exists>n l. nm = Some n \<and> sl = Some l \<and> name_valid n \<and> slug_format l \<and>
           slug_not_reserved l \<and> l \<notin> set (map o_slug (organizations s)) \<and>
           g = \<lparr>o_id = next_uuid s, o_name = n, o_slug = l, o_created_at = now c,
                o_updated_at = now c, o_deleted_at = None\<rparr> \<and>
           organizations s' = organizations s @ [g] \<and>
           memberships s' = memberships s \<and> inventory s' = inventory s \<and>
           transactions s' = transactions s \<and> invites s' = invites s \<and>
           auth_users s' = auth_users s \<and>
           length (audit_log s') = Suc (length (audit_log s))"
  using assms unfolding insert_organizations_def
  by (auto split: option.splits if_splits
      simp: Let_def trg_organizations_audit_insert_frame)

lemma create_organization_Inr:
  assumes "create_organization c nm sl s = (Inr g, s')"
  shows "\<exists>n l u. nm = Some n \<and> sl = Some l \<and> auth_uid c = Some u \<and>
           name_valid n \<and> slug_format l \<and> slug_not_reserved l \<and>
           l \<notin> set (map o_slug (organizations s)) \<and>
           g = \<lparr>o_id = next_uuid s, o_name = n, o_slug = l, o_created_at = now c,
                o_updated_at = now c, o_deleted_at = None\<rparr> \<and>
           organizations s' = organizations s @ [g] \<and>
           memberships s' = memberships s @
             [\<lparr>m_id = Suc (Suc (next_uuid s)), m_user_id = u, m_organization_id = o_id g,
               m_role = Owner, m_invited_by = None, m_invited_at = None,
               m_accepted_at = Some (now c), m_created_at = now c\<rparr>] \<and>
           inventory s' = inventory s \<and> transactions s' = transactions s \<and>
           invites s' = invites s \<and>
           length (audit_log s') = Suc (Suc (length (audit_log s)))"
proof -
  from assms obtain g1 s1 m where
    org: "insert_organizations c nm sl s = (Inr g1, s1)" and
    mem: "insert_memberships c (auth_uid c) (o_id g1) Owner None None (Some (now c)) s1 = (Inr m, s')"
    and g: "g = g1"
    unfolding create_organization_def
    by (auto split: if_splits prod.splits sum.splits)
  have nx: "next_uuid s1 = Suc (Suc (next_uuid s))"
    using org unfolding insert_organizations_def
    by (auto split: option.splits if_splits
        simp: Let_def trg_organizations_audit_insert_frame)
  from insert_organizations_Inr [OF org] insert_memberships_Inr [OF mem] g nx
  show ?thesis by auto
qed


lemma reserved_slugs_well_formed: "l \<in> set reserved_slugs \<Longrightarrow> slug_format l"
proof -
  have "slug_format ''api''" "slug_format ''admin''" "slug_format ''www''" "slug_format ''app''"
    "slug_format ''auth''" "slug_format ''login''" "slug_format ''register''"
    by code_simp+
  then show "l \<in> set reserved_slugs \<Longrightarrow> slug_format l"
    by (auto simp: reserved_slugs_def)
qed

text \<open>
  C6. \<^verbatim>\<open>create_organization\<close> raises \<^verbatim>\<open>Invalid slug format\<close> for a slug that
  does not match the pattern, and a reserved slug is refused by the check
  constraint \<^verbatim>\<open>slug_not_reserved\<close> of the table; in both cases the database is
  as before. Every call either raises and leaves the database as it found it,
  or returns the new organization, which is then the last row of
  \<^verbatim>\<open>organizations\<close>, with the caller's membership of role \<open>owner\<close> as the last
  row of \<^verbatim>\<open>memberships\<close>. When the organization was inserted and the insert of
  the membership fails, the transaction gives back the database of before the
  call. A valid name and a free, well-formed, unreserved slug, from a signed-in
  caller, succeed.
\<close>

theorem create_organization_validates_and_is_atomic:
  "(\<not> slug_format l \<longrightarrow>
      transaction (create_organization c nm (Some l)) s = (Inl Invalid_slug_format, s)) \<and>
   (l \<in> set reserved_slugs \<longrightarrow>
      (\<exists>e. transaction (create_organization c nm (Some l)) s = (Inl e, s))) \<and>
   (l \<in> set reserved_slugs \<and> name_valid n \<longrightarrow>
      transaction (create_organization c (Some n) (Some l)) s =
        (Inl (Check_violation ''slug_not_reserved''), s)) \<and>
   ((\<exists>e. transaction (create_organization c nm sl) s = (Inl e, s)) \<or>
    (\<exists>g s' u m. transaction (create_organization c nm sl) s = (Inr g, s') \<and>
       auth_uid c = Some u \<and> Some (o_name g) = nm \<and> Some (o_slug g) = sl \<and>
       o_deleted_at g = None \<and>
       organizations s' = organizations s @ [g] \<and>
       memberships s' = memberships s @ [m] \<and>
       m_user_id m = u \<and> m_organization_id m = o_id g \<and> m_role m = Owner)) \<and>
   (\<forall>g s1 e s2.
      insert_organizations c nm sl s = (Inr g, s1) \<and>
      insert_memberships c (auth_uid c) (o_id g) Owner None None (Some (now c)) s1 = (Inl e, s2) \<longrightarrow>
      organizations s1 = organizations s @ [g] \<and>
      transaction (create_organization c nm sl) s = (Inl e, s)) \<and>
   (name_valid n \<and> slug_format l \<and> slug_not_reserved l \<and>
    l \<notin> set (map o_slug (organizations s)) \<and> auth_uid c = Some u \<and>
    next_uuid s \<notin> set (map m_organization_id (memberships s)) \<longrightarrow>
      (\<exists>g s'. transaction (create_organization c (Some n) (Some l)) s = (Inr g, s')))"
proof (intro conjI impI allI)
  assume "\<not> slug_format l"
  then show "transaction (create_organization c nm (Some l)) s = (Inl Invalid_slug_format, s)"
    by (simp add: transaction_def create_organization_def)
next
  assume "l \<in> set reserved_slugs"
  then have "slug_format l" "\<not> slug_not_reserved l"
    by (simp_all add: reserved_slugs_well_formed slug_not_reserved_def)
  then show "\<exists>e. transaction (create_organization c nm (Some l)) s = (Inl e, s)"
    by (cases nm)
      (simp_all add: transaction_def create_organization_def insert_organizations_def)
next
  assume "l \<in> set reserved_slugs \<and> name_valid n"
  then have "slug_format l" "\<not> slug_not_reserved l" "name_valid n"
    by (simp_all add: reserved_slugs_well_formed slug_not_reserved_def)
  then show "transaction (create_organization c (Some n) (Some l)) s =
        (Inl (Check_violation ''slug_not_reserved''), s)"
    by (simp add: transaction_def create_organization_def insert_organizations_def)
next
  show "(\<exists>e. transaction (create_organization c nm sl) s = (Inl e, s)) \<or>
    (\<exists>g s' u m. transaction (create_organization c nm sl) s = (Inr g, s') \<and>
       auth_uid c = Some u \<and> Some (o_name g) = nm \<and> Some (o_slug g) = sl \<and>
       o_deleted_at g = None \<and>
       organizations s' = organizations s @ [g] \<and>
       memberships s' = memberships s @ [m] \<and>
       m_user_id m = u \<and> m_organization_id m = o_id g \<and> m_role m = Owner)"
  proof (cases "create_organization c nm sl s")
    case (Pair r s1)
    show ?thesis
    proof (cases r)
      case (Inl e)
      with Pair show ?thesis by (simp add: transaction_def)
    next
      case (Inr g)
      with Pair have ok: "create_organization c nm sl s = (Inr g, s1)" by simp
      then have "transaction (create_organization c nm sl) s = (Inr g, s1)"
        by (simp add: transaction_def)
      with create_organization_Inr [OF ok] show ?thesis by auto
    qed
  qed
next
  fix g s1 e s2
  assume a: "insert_organizations c nm sl s = (Inr g, s1) \<and>
      insert_memberships c (auth_uid c) (o_id g) Owner None None (Some (now c)) s1 = (Inl e, s2)"
  then have org: "insert_organizations c nm sl s = (Inr g, s1)" by simp
  from insert_organizations_Inr [OF org]
  show "organizations s1 = organizations s @ [g]" by blast
  from insert_organizations_Inr [OF org] obtain l' where "sl = Some l'" "slug_format l'" by blast
  with a show "transaction (create_organization c nm sl) s = (Inl e, s)"
    by (simp add: transaction_def create_organization_def)
next
  assume a: "name_valid n \<and> slug_format l \<and> slug_not_reserved l \<and>
    l \<notin> set (map o_slug (organizations s)) \<and> auth_uid c = Some u \<and>
    next_uuid s \<notin> set (map m_organization_id (memberships s))"
  then have "\<not> (\<exists>m \<in> set (memberships s). m_user_id m = u \<and> m_organization_id m = next_uuid s)"
    by (metis image_eqI set_map)
  with a show "\<exists>g s'. transaction (create_organization c (Some n) (Some l)) s = (Inr g, s')"
    by (simp add: transaction_def create_organization_def insert_organizations_def
        insert_memberships_def Let_def trg_organizations_audit_insert_frame)
qed


theorem create_organization_validates_and_is_atomic_witness:
  "transaction (create_organization (as_user 12) (Some ''Moody Cards'') (Some ''Moody Cards''))
     rls_test_db = (Inl Invalid_slug_format, rls_test_db) \<and>
   transaction (create_organization (as_user 12) (Some ''Moody Cards'') (Some ''admin''))
     rls_test_db = (Inl (Check_violation ''slug_not_reserved''), rls_test_db) \<and>
   (\<exists>g s'. transaction (create_organization (as_user 12) (Some ''Moody Cards'')
               (Some ''moody-cards'')) rls_test_db = (Inr g, s')) \<and>
   transaction (create_organization \<lparr>auth_uid = None, now = 1000\<rparr> (Some ''Moody Cards'')
      (Some ''moody-cards'')) rls_test_db = (Inl (Not_null_violation ''user_id''), rls_test_db)"
proof -
  have bad: "\<not> slug_format ''Moody Cards''" by code_simp
  have good: "slug_format ''moody-cards''" by code_simp
  have free: "slug_not_reserved ''moody-cards''" by code_simp
  have name: "name_valid ''Moody Cards''" by code_simp
  have res: "''admin'' \<in> set reserved_slugs" by (simp add: reserved_slugs_def)
  have new: "''moody-cards'' \<notin> set (map o_slug (organizations rls_test_db))"
    by (simp add: rls_test_db_def)
  have fresh: "next_uuid rls_test_db \<notin> set (map m_organization_id (memberships rls_test_db))"
    by (simp add: rls_test_db_def)
  have a: "transaction (create_organization (as_user 12) (Some ''Moody Cards'') (Some ''Moody Cards''))
     rls_test_db = (Inl Invalid_slug_format, rls_test_db)"
    using create_organization_validates_and_is_atomic
      [of "''Moody Cards''" "as_user 12" "Some ''Moody Cards''" rls_test_db] bad
    by blast
  have b: "transaction (create_organization (as_user 12) (Some ''Moody Cards'') (Some ''admin''))
     rls_test_db = (Inl (Check_violation ''slug_not_reserved''), rls_test_db)"
    using create_organization_validates_and_is_atomic
      [of "''admin''" "as_user 12" _ rls_test_db "''Moody Cards''"] res name
    by blast
  have c: "\<exists>g s'. transaction (create_organization (as_user 12) (Some ''Moody Cards'')
               (Some ''moody-cards'')) rls_test_db = (Inr g, s')"
    using create_organization_validates_and_is_atomic
      [of "''moody-cards''" "as_user 12" _ rls_test_db "''Moody Cards''" _ 12]
      good free name new fresh
    by (simp add: as_user_def)
  let ?anon = "\<lparr>auth_uid = None, now = 1000\<rparr>"
  obtain g s1 where
    org: "insert_organizations ?anon (Some ''Moody Cards'') (Some ''moody-cards'') rls_test_db =
            (Inr g, s1)"
    using good free name new by (simp add: insert_organizations_def Let_def)
  have mem: "insert_memberships ?anon (auth_uid ?anon) (o_id g) Owner None None
       (Some (now ?anon)) s1 = (Inl (Not_null_violation ''user_id''), s1)"
    by (simp add: insert_memberships_def)
  have d: "transaction (create_organization ?anon (Some ''Moody Cards'')
      (Some ''moody-cards'')) rls_test_db = (Inl (Not_null_violation ''user_id''), rls_test_db)"
    using create_organization_validates_and_is_atomic
      [of _ ?anon "Some ''Moody Cards''" rls_test_db _ "Some ''moody-cards''"] org mem
    by blast
  from a b c d show ?thesis by blast
qed

subsection \<open>Invites and their unique index\<close>

lemma distinct_keys_after_answer:
  assumes "\<And>x. P (f x) \<Longrightarrow> P x" and "\<And>x. key (f x) = key x"
  shows "distinct (map key (filter P xs)) \<Longrightarrow> distinct (map key (filter P (map f xs)))"
proof (induction xs)
  case Nil
  then show ?case by simp
next
  case (Cons a xs)
  have sub: "set (map key (filter P (map f xs))) \<subseteq> set (map key (filter P xs))"
    using assms by (auto simp: image_iff)
  from Cons show ?case
    using assms sub by (auto split: if_splits)
qed

text \<open>
  C9, as the code has it. The index \<^verbatim>\<open>idx_invites_org_email_pending\<close> holds of
  the invites after a client's insert or update and after \<^verbatim>\<open>accept_invite\<close>,
  when it held before: an organization and an email have at most one invite
  that is neither accepted nor revoked. An insert for a pair that has such an
  invite fails and changes nothing, and for an admin with a fresh token the
  failure is the unique violation of that index, whether or not the old invite
  has expired by time: \<^verbatim>\<open>expires_at\<close> is not read. When the pair has no such
  invite, the admin's insert succeeds.
\<close>

theorem unanswered_invite_blocks_new_invite:
  "(pending_unique s \<longrightarrow>
      pending_unique (snd (transaction (client_insert_invites c g email r tok ib) s)) \<and>
      pending_unique (snd (transaction (client_update_invites c wh f) s)) \<and>
      pending_unique (snd (transaction (accept_invite c tok) s))) \<and>
   ((\<exists>v \<in> set (invites s). v_organization_id v = g \<and> v_email v = email \<and> unanswered v) \<longrightarrow>
      (\<exists>e. transaction (client_insert_invites c g email r tok ib) s = (Inl e, s))) \<and>
   (is_org_admin_or_owner c s g \<and> tok \<notin> set (map v_token (invites s)) \<and>
    (\<exists>v \<in> set (invites s). v_organization_id v = g \<and> v_email v = email \<and> unanswered v) \<longrightarrow>
      transaction (client_insert_invites c g email r tok ib) s =
        (Inl (Unique_violation ''idx_invites_org_email_pending''), s)) \<and>
   (is_org_admin_or_owner c s g \<and> tok \<notin> set (map v_token (invites s)) \<and>
    \<not> (\<exists>v \<in> set (invites s). v_organization_id v = g \<and> v_email v = email \<and> unanswered v) \<longrightarrow>
      (\<exists>v s'. transaction (client_insert_invites c g email r tok ib) s = (Inr v, s') \<and>
         invites s' = invites s @ [v] \<and> v_organization_id v = g \<and> v_email v = email \<and>
         unanswered v))"
proof (intro conjI impI)
  assume inv: "pending_unique s"
  show "pending_unique (snd (transaction (client_insert_invites c g email r tok ib) s))"
    using inv
    by (auto simp: transaction_def client_insert_invites_def Let_def pending_unique_def
        idx_invites_org_email_pending_def image_iff)
  show "pending_unique (snd (transaction (client_update_invites c wh f) s))"
    using inv unfolding transaction_def client_update_invites_def Let_def
    by (simp add: pending_unique_def split: prod.splits sum.splits if_splits)
  show "pending_unique (snd (transaction (accept_invite c tok) s))"
  proof (cases "accept_invite c tok s")
    case (Pair res s1)
    show ?thesis
    proof (cases res)
      case (Inl e)
      with Pair inv show ?thesis by (simp add: transaction_def)
    next
      case (Inr m)
      with Pair have "accept_invite c tok s = (Inr m, s1)" by simp
      from accept_invite_Inr [OF this] obtain v where
        "find (\<lambda>v. v_token v = tok) (invites s) = Some v" and
        inv': "invites s1 =
             map (\<lambda>x. if v_id x = v_id v then x\<lparr>v_accepted_at := Some (now c)\<rparr> else x)
               (invites s)"
        by blast
      have "pending_unique s1"
        using inv unfolding pending_unique_def idx_invites_org_email_pending_def inv'
        by (rule distinct_keys_after_answer [rotated 2])
          (auto simp: unanswered_def split: if_splits)
      with Pair Inr show ?thesis by (simp add: transaction_def)
    qed
  qed
next
  assume "\<exists>v \<in> set (invites s). v_organization_id v = g \<and> v_email v = email \<and> unanswered v"
  then show "\<exists>e. transaction (client_insert_invites c g email r tok ib) s = (Inl e, s)"
    by (auto simp: transaction_def client_insert_invites_def Let_def)
next
  assume "is_org_admin_or_owner c s g \<and> tok \<notin> set (map v_token (invites s)) \<and>
    (\<exists>v \<in> set (invites s). v_organization_id v = g \<and> v_email v = email \<and> unanswered v)"
  then show "transaction (client_insert_invites c g email r tok ib) s =
        (Inl (Unique_violation ''idx_invites_org_email_pending''), s)"
    by (auto simp: transaction_def client_insert_invites_def Let_def unanswered_def
        invites_all_def)
next
  assume "is_org_admin_or_owner c s g \<and> tok \<notin> set (map v_token (invites s)) \<and>
    \<not> (\<exists>v \<in> set (invites s). v_organization_id v = g \<and> v_email v = email \<and> unanswered v)"
  then show "\<exists>v s'. transaction (client_insert_invites c g email r tok ib) s = (Inr v, s') \<and>
         invites s' = invites s @ [v] \<and> v_organization_id v = g \<and> v_email v = email \<and>
         unanswered v"
    by (auto simp: transaction_def client_insert_invites_def Let_def unanswered_def
        invites_all_def)
qed


theorem unanswered_invite_blocks_new_invite_witness:
  "pending_unique invite_test_db \<and>
   pending_unique
     (snd (transaction (accept_invite (as_user 12) ''t0k3n'') invite_test_db)) \<and>
   \<not> expired (as_user 10) test_invite \<and>
   transaction
     (client_insert_invites (as_user 10) 1 ''Outsider@Test.com'' Admin ''n3w'' (Some 10))
     invite_test_db =
     (Inl (Unique_violation ''idx_invites_org_email_pending''), invite_test_db) \<and>
   expired \<lparr>auth_uid = Some 10, now = 700000\<rparr> test_invite \<and>
   transaction
     (client_insert_invites \<lparr>auth_uid = Some 10, now = 700000\<rparr> 1 ''Outsider@Test.com'' Admin
        ''n3w'' (Some 10)) invite_test_db =
     (Inl (Unique_violation ''idx_invites_org_email_pending''), invite_test_db) \<and>
   (\<exists>v s'. transaction
       (client_insert_invites \<lparr>auth_uid = Some 10, now = 700000\<rparr> 1 ''Outsider@Test.com'' Admin
          ''n3w'' (Some 10))
       (snd (transaction
          (client_update_invites \<lparr>auth_uid = Some 10, now = 700000\<rparr> (\<lambda>v. v_id v = 5)
             (\<lambda>v. v\<lparr>v_revoked_at := Some 700000\<rparr>)) invite_test_db)) = (Inr v, s'))"
proof -
  let ?c = "\<lparr>auth_uid = Some 10, now = 700000\<rparr>"
  let ?revoked = "snd (transaction
          (client_update_invites ?c (\<lambda>v. v_id v = 5)
             (\<lambda>v. v\<lparr>v_revoked_at := Some 700000\<rparr>)) invite_test_db)"
  have inv: "pending_unique invite_test_db"
    by (simp add: pending_unique_def idx_invites_org_email_pending_def invite_test_db_def
        test_invite_def unanswered_def)
  note blocks = unanswered_invite_blocks_new_invite
  have a: "pending_unique
     (snd (transaction (accept_invite (as_user 12) ''t0k3n'') invite_test_db))"
    using blocks [of invite_test_db "as_user 12" _ _ _ "''t0k3n''"] inv by blast
  have admin: "is_org_admin_or_owner ?c invite_test_db 1"
    by (simp add: is_org_admin_or_owner_def invite_test_db_def rls_test_db_def)
  have tok: "''n3w'' \<notin> set (map v_token (invites invite_test_db))"
    by (simp add: invite_test_db_def test_invite_def)
  have admin0: "is_org_admin_or_owner (as_user 10) invite_test_db 1"
    by (simp add: is_org_admin_or_owner_def invite_test_db_def rls_test_db_def as_user_def)
  have old: "\<exists>v \<in> set (invites invite_test_db).
      v_organization_id v = 1 \<and> v_email v = ''Outsider@Test.com'' \<and> unanswered v"
    by (simp add: invite_test_db_def test_invite_def unanswered_def)
  have ex: "\<not> expired (as_user 10) test_invite" "expired ?c test_invite"
    by (simp_all add: test_invite_def expired_def as_user_def)
  have b0: "transaction
     (client_insert_invites (as_user 10) 1 ''Outsider@Test.com'' Admin ''n3w'' (Some 10))
     invite_test_db =
     (Inl (Unique_violation ''idx_invites_org_email_pending''), invite_test_db)"
    using blocks [of invite_test_db "as_user 10" 1 "''Outsider@Test.com''" _ "''n3w''"]
      admin0 tok old
    by blast
  have b: "transaction
     (client_insert_invites ?c 1 ''Outsider@Test.com'' Admin ''n3w'' (Some 10)) invite_test_db =
     (Inl (Unique_violation ''idx_invites_org_email_pending''), invite_test_db)"
    using blocks [of invite_test_db ?c 1 "''Outsider@Test.com''" _ "''n3w''"] admin tok old
    by blast
  have rv: "invites ?revoked = [test_invite\<lparr>v_revoked_at := Some 700000\<rparr>]"
    "memberships ?revoked = memberships invite_test_db"
    by (simp_all add: transaction_def client_update_invites_def invites_all_def
        is_org_admin_or_owner_def idx_invites_org_email_pending_def unanswered_def
        invite_test_db_def test_invite_def rls_test_db_def Let_def)
  have admin': "is_org_admin_or_owner ?c ?revoked 1"
    unfolding is_org_admin_or_owner_def rv
    by (simp add: invite_test_db_def rls_test_db_def)
  have tok': "''n3w'' \<notin> set (map v_token (invites ?revoked))"
    unfolding rv by (simp add: test_invite_def)
  have none: "\<not> (\<exists>v \<in> set (invites ?revoked).
      v_organization_id v = 1 \<and> v_email v = ''Outsider@Test.com'' \<and> unanswered v)"
    unfolding rv by (simp add: test_invite_def unanswered_def)
  have c: "\<exists>v s'. transaction
       (client_insert_invites ?c 1 ''Outsider@Test.com'' Admin ''n3w'' (Some 10)) ?revoked =
       (Inr v, s')"
    using blocks [of ?revoked ?c 1 "''Outsider@Test.com''" _ "''n3w''"] admin' tok' none
    by blast
  from inv a ex b0 b c show ?thesis by blast
qed

text \<open>
  C9 as stated fails where it lets an invite that expired by time be
  superseded: the index does not read \<^verbatim>\<open>expires_at\<close>, and the insert of a new
  invite for the pair of an expired, unanswered one is refused.
\<close>

theorem expired_invite_still_blocks_new_invite:
  "unanswered test_invite \<and>
   expired \<lparr>auth_uid = Some 10, now = 700000\<rparr> test_invite \<and>
   is_org_admin_or_owner \<lparr>auth_uid = Some 10, now = 700000\<rparr> invite_test_db 1 \<and>
   transaction
     (client_insert_invites \<lparr>auth_uid = Some 10, now = 700000\<rparr> 1 ''Outsider@Test.com'' Admin
        ''n3w'' (Some 10)) invite_test_db =
     (Inl (Unique_violation ''idx_invites_org_email_pending''), invite_test_db)"
  by (simp add: transaction_def client_insert_invites_def invites_all_def
      is_org_admin_or_owner_def unanswered_def expired_def
      invite_test_db_def test_invite_def rls_test_db_def Let_def)

subsection \<open>The audit triggers\<close>

lemma fold_audit_log:
  assumes "\<And>x t. map without_id (audit_log (f x t)) = map without_id (audit_log t) @ [e x]"
  shows "map without_id (audit_log (fold f xs s)) = map without_id (audit_log s) @ map e xs"
  using assms by (induction xs arbitrary: s) simp_all

lemma audit_trigger_entry:
  "audit_log (audit_trigger org_col id_col img c tbl ev s) =
     audit_log s @
       [\<lparr>a_id = next_uuid s, a_organization_id = coalesce_new_old org_col ev,
         a_table_name = tbl, a_record_id = coalesce_new_old id_col ev, a_action = tg_OP ev,
         a_old_data = old_data img ev, a_new_data = new_data img ev,
         a_changed_by = auth_uid c, a_changed_at = now c\<rparr>]"
  by (simp add: audit_trigger_def insert_audit_log_def)

lemma audit_trigger_organizations_entry:
  "audit_log (audit_trigger_organizations c tbl ev s) =
     audit_log s @
       [\<lparr>a_id = next_uuid s, a_organization_id = coalesce_new_old o_id ev,
         a_table_name = tbl, a_record_id = coalesce_new_old o_id ev, a_action = tg_OP ev,
         a_old_data = old_data Organization_row ev, a_new_data = new_data Organization_row ev,
         a_changed_by = auth_uid c, a_changed_at = now c\<rparr>]"
  by (simp add: audit_trigger_organizations_def insert_audit_log_def)

text \<open>
  C3, as the code has it. Each row inserted into, updated in or deleted from
  \<^verbatim>\<open>inventory\<close> or \<^verbatim>\<open>memberships\<close>, and each row inserted into or updated in
  \<^verbatim>\<open>organizations\<close>, gets exactly one audit entry from its row trigger, in the
  same transaction: the organization, the table, the row's id, the operation,
  the old row for an update or delete, the new row for an insert or update,
  \<^verbatim>\<open>auth.uid()\<close> and \<^verbatim>\<open>now()\<close>. The statements of the procedures write one
  such entry for each row they touch (shown up to the entries' generated ids).
  A delete of \<^verbatim>\<open>organizations\<close> and the writes to \<^verbatim>\<open>transactions\<close> and
  \<^verbatim>\<open>invites\<close> write none.
\<close>

theorem audited_rows_get_one_entry:
  "audit_log (trg_inventory_audit c (Tg_insert inew) s) =
     audit_log s @
       [\<lparr>a_id = next_uuid s, a_organization_id = i_organization_id inew,
         a_table_name = ''inventory'', a_record_id = i_id inew, a_action = INSERT,
         a_old_data = None, a_new_data = Some (Inventory_row inew),
         a_changed_by = auth_uid c, a_changed_at = now c\<rparr>] \<and>
   audit_log (trg_inventory_audit c (Tg_update iold inew) s) =
     audit_log s @
       [\<lparr>a_id = next_uuid s, a_organization_id = i_organization_id inew,
         a_table_name = ''inventory'', a_record_id = i_id inew, a_action = UPDATE,
         a_old_data = Some (Inventory_row iold), a_new_data = Some (Inventory_row inew),
         a_changed_by = auth_uid c, a_changed_at = now c\<rparr>] \<and>
   audit_log (trg_inventory_audit c (Tg_delete iold) s) =
     audit_log s @
       [\<lparr>a_id = next_uuid s, a_organization_id = i_organization_id iold,
         a_table_name = ''inventory'', a_record_id = i_id iold, a_action = DELETE,
         a_old_data = Some (Inventory_row iold), a_new_data = None,
         a_changed_by = auth_uid c, a_changed_at = now c\<rparr>] \<and>
   audit_log (trg_memberships_audit c (Tg_insert mnew) s) =
     audit_log s @
       [\<lparr>a_id = next_uuid s, a_organization_id = m_organization_id mnew,
         a_table_name = ''memberships'', a_record_id = m_id mnew, a_action = INSERT,
         a_old_data = None, a_new_data = Some (Membership_row mnew),
         a_changed_by = auth_uid c, a_changed_at = now c\<rparr>] \<and>
   audit_log (trg_memberships_audit c (Tg_update mold mnew) s) =
     audit_log s @
       [\<lparr>a_id = next_uuid s, a_organization_id = m_organization_id mnew,
         a_table_name = ''memberships'', a_record_id = m_id mnew, a_action = UPDATE,
         a_old_data = Some (Membership_row mold), a_new_data = Some (Membership_row mnew),
         a_changed_by = auth_uid c, a_changed_at = now c\<rparr>] \<and>
   audit_log (trg_memberships_audit c (Tg_delete mold) s) =
     audit_log s @
       [\<lparr>a_id = next_uuid s, a_organization_id = m_organization_id mold,
         a_table_name = ''memberships'', a_record_id = m_id mold, a_action = DELETE,
         a_old_data = Some (Membership_row mold), a_new_data = None,
         a_changed_by = auth_uid c, a_changed_at = now c\<rparr>] \<and>
   audit_log (trg_organizations_audit c (Tg_insert onew) s) =
     audit_log s @
       [\<lparr>a_id = next_uuid s, a_organization_id = o_id onew,
         a_table_name = ''organizations'', a_record_id = o_id onew, a_action = INSERT,
         a_old_data = None, a_new_data = Some (Organization_row onew),
         a_changed_by = auth_uid c, a_changed_at = now c\<rparr>] \<and>
   audit_log (trg_organizations_audit c (Tg_update oold onew) s) =
     audit_log s @
       [\<lparr>a_id = next_uuid s, a_organization_id = o_id onew,
         a_table_name = ''organizations'', a_record_id = o_id onew, a_action = UPDATE,
         a_old_data = Some (Organization_row oold), a_new_data = Some (Organization_row onew),
         a_changed_by = auth_uid c, a_changed_at = now c\<rparr>] \<and>
   trg_organizations_audit c (Tg_delete oold) s = s \<and>
   map without_id (audit_log (update_inventory c iwh iset s)) =
     map without_id (audit_log s) @
       map (\<lambda>old.
              \<lparr>a_id = 0, a_organization_id = i_organization_id (iset old),
               a_table_name = ''inventory'', a_record_id = i_id (iset old), a_action = UPDATE,
               a_old_data = Some (Inventory_row old),
               a_new_data = Some (Inventory_row ((iset old)\<lparr>i_updated_at := now c\<rparr>)),
               a_changed_by = auth_uid c, a_changed_at = now c\<rparr>)
         (filter iwh (inventory s)) \<and>
   map without_id (audit_log (update_memberships c mwh mset s)) =
     map without_id (audit_log s) @
       map (\<lambda>old.
              \<lparr>a_id = 0, a_organization_id = m_organization_id (mset old),
               a_table_name = ''memberships'', a_record_id = m_id (mset old), a_action = UPDATE,
               a_old_data = Some (Membership_row old),
               a_new_data = Some (Membership_row (mset old)),
               a_changed_by = auth_uid c, a_changed_at = now c\<rparr>)
         (filter mwh (memberships s)) \<and>
   map without_id (audit_log (delete_memberships c mwh s)) =
     map without_id (audit_log s) @
       map (\<lambda>old.
              \<lparr>a_id = 0, a_organization_id = m_organization_id old,
               a_table_name = ''memberships'', a_record_id = m_id old, a_action = DELETE,
               a_old_data = Some (Membership_row old), a_new_data = None,
               a_changed_by = auth_uid c, a_changed_at = now c\<rparr>)
         (filter mwh (memberships s)) \<and>
   map without_id (audit_log (update_organizations c owh oset s)) =
     map without_id (audit_log s) @
       map (\<lambda>old.
              \<lparr>a_id = 0, a_organization_id = o_id (oset old),
               a_table_name = ''organizations'', a_record_id = o_id (oset old), a_action = UPDATE,
               a_old_data = Some (Organization_row old),
               a_new_data = Some (Organization_row ((oset old)\<lparr>o_updated_at := now c\<rparr>)),
               a_changed_by = auth_uid c, a_changed_at = now c\<rparr>)
         (filter owh (organizations s)) \<and>
   (\<forall>g s'. insert_organizations c nm sl s = (Inr g, s') \<longrightarrow>
      audit_log s' =
        audit_log s @
          [\<lparr>a_id = Suc (next_uuid s), a_organization_id = o_id g,
            a_table_name = ''organizations'', a_record_id = o_id g, a_action = INSERT,
            a_old_data = None, a_new_data = Some (Organization_row g),
            a_changed_by = auth_uid c, a_changed_at = now c\<rparr>]) \<and>
   (\<forall>m s'. insert_memberships c who org role ib ia aa s = (Inr m, s') \<longrightarrow>
      audit_log s' =
        audit_log s @
          [\<lparr>a_id = Suc (next_uuid s), a_organization_id = m_organization_id m,
            a_table_name = ''memberships'', a_record_id = m_id m, a_action = INSERT,
            a_old_data = None, a_new_data = Some (Membership_row m),
            a_changed_by = auth_uid c, a_changed_at = now c\<rparr>]) \<and>
   audit_log (snd (insert_transactions c org item price who be bn s)) = audit_log s \<and>
   audit_log (update_invites vwh vset s) = audit_log s \<and>
   audit_log (snd (client_insert_invites c org email role tok ib s)) = audit_log s"
proof (intro conjI)
  show "\<forall>g s'. insert_organizations c nm sl s = (Inr g, s') \<longrightarrow>
      audit_log s' =
        audit_log s @
          [\<lparr>a_id = Suc (next_uuid s), a_organization_id = o_id g,
            a_table_name = ''organizations'', a_record_id = o_id g, a_action = INSERT,
            a_old_data = None, a_new_data = Some (Organization_row g),
            a_changed_by = auth_uid c, a_changed_at = now c\<rparr>]"
    unfolding insert_organizations_def
    by (auto split: option.splits if_splits
        simp: Let_def trg_organizations_audit_def audit_trigger_organizations_entry)
  show "\<forall>m s'. insert_memberships c who org role ib ia aa s = (Inr m, s') \<longrightarrow>
      audit_log s' =
        audit_log s @
          [\<lparr>a_id = Suc (next_uuid s), a_organization_id = m_organization_id m,
            a_table_name = ''memberships'', a_record_id = m_id m, a_action = INSERT,
            a_old_data = None, a_new_data = Some (Membership_row m),
            a_changed_by = auth_uid c, a_changed_at = now c\<rparr>]"
    unfolding insert_memberships_def
    by (auto split: option.splits if_splits
        simp: Let_def trg_memberships_audit_def audit_trigger_entry)
  show "audit_log (snd (insert_transactions c org item price who be bn s)) = audit_log s"
    by (simp add: insert_transactions_def Let_def split: option.splits)
  show "audit_log (update_invites vwh vset s) = audit_log s"
    by (simp add: update_invites_def)
  show "audit_log (snd (client_insert_invites c org email role tok ib s)) = audit_log s"
    by (simp add: client_insert_invites_def Let_def)
  show "map without_id (audit_log (update_inventory c iwh iset s)) =
     map without_id (audit_log s) @
       map (\<lambda>old.
              \<lparr>a_id = 0, a_organization_id = i_organization_id (iset old),
               a_table_name = ''inventory'', a_record_id = i_id (iset old), a_action = UPDATE,
               a_old_data = Some (Inventory_row old),
               a_new_data = Some (Inventory_row ((iset old)\<lparr>i_updated_at := now c\<rparr>)),
               a_changed_by = auth_uid c, a_changed_at = now c\<rparr>)
         (filter iwh (inventory s))"
    (is "_ = _ @ map ?E _")
  proof -
    let ?F = "\<lambda>old. trg_inventory_audit c (Tg_update old (trg_inventory_updated_at c (iset old)))"
    have step: "map without_id (audit_log (?F x t)) = map without_id (audit_log t) @ [?E x]" for x t
      by (simp add: trg_inventory_audit_def audit_trigger_entry without_id_def trg_inventory_updated_at_def)
    show ?thesis
      unfolding update_inventory_def by (simp add: fold_audit_log [of ?F ?E, OF step])
  qed
  show "map without_id (audit_log (update_memberships c mwh mset s)) =
     map without_id (audit_log s) @
       map (\<lambda>old.
              \<lparr>a_id = 0, a_organization_id = m_organization_id (mset old),
               a_table_name = ''memberships'', a_record_id = m_id (mset old), a_action = UPDATE,
               a_old_data = Some (Membership_row old),
               a_new_data = Some (Membership_row (mset old)),
               a_changed_by = auth_uid c, a_changed_at = now c\<rparr>)
         (filter mwh (memberships s))"
    (is "_ = _ @ map ?E _")
  proof -
    let ?F = "\<lambda>old. trg_memberships_audit c (Tg_update old (mset old))"
    have step: "map without_id (audit_log (?F x t)) = map without_id (audit_log t) @ [?E x]" for x t
      by (simp add: trg_memberships_audit_def audit_trigger_entry without_id_def)
    show ?thesis
      unfolding update_memberships_def by (simp add: fold_audit_log [of ?F ?E, OF step])
  qed
  show "map without_id (audit_log (delete_memberships c mwh s)) =
     map without_id (audit_log s) @
       map (\<lambda>old.
              \<lparr>a_id = 0, a_organization_id = m_organization_id old,
               a_table_name = ''memberships'', a_record_id = m_id old, a_action = DELETE,
               a_old_data = Some (Membership_row old), a_new_data = None,
               a_changed_by = auth_uid c, a_changed_at = now c\<rparr>)
         (filter mwh (memberships s))"
    (is "_ = _ @ map ?E _")
  proof -
    let ?F = "\<lambda>old. trg_memberships_audit c (Tg_delete old)"
    have step: "map without_id (audit_log (?F x t)) = map without_id (audit_log t) @ [?E x]" for x t
      by (simp add: trg_memberships_audit_def audit_trigger_entry without_id_def)
    show ?thesis
      unfolding delete_memberships_def by (simp add: fold_audit_log [of ?F ?E, OF step])
  qed
  show "map without_id (audit_log (update_organizations c owh oset s)) =
     map without_id (audit_log s) @
       map (\<lambda>old.
              \<lparr>a_id = 0, a_organization_id = o_id (oset old),
               a_table_name = ''organizations'', a_record_id = o_id (oset old), a_action = UPDATE,
               a_old_data = Some (Organization_row old),
               a_new_data = Some (Organization_row ((oset old)\<lparr>o_updated_at := now c\<rparr>)),
               a_changed_by = auth_uid c, a_changed_at = now c\<rparr>)
         (filter owh (organizations s))"
    (is "_ = _ @ map ?E _")
  proof -
    let ?F = "\<lambda>old. trg_organizations_audit c (Tg_update old (trg_organizations_updated_at c (oset old)))"
    have step: "map without_id (audit_log (?F x t)) = map without_id (audit_log t) @ [?E x]" for x t
      by (simp add: trg_organizations_audit_def audit_trigger_organizations_entry without_id_def trg_organizations_updated_at_def)
    show ?thesis
      unfolding update_organizations_def by (simp add: fold_audit_log [of ?F ?E, OF step])
  qed
qed (simp_all add: trg_inventory_audit_def trg_memberships_audit_def
    trg_organizations_audit_def audit_trigger_entry audit_trigger_organizations_entry)


theorem audited_rows_get_one_entry_witness:
  "audit_log
     (snd (insert_memberships (as_user 12) (Some 12) 1 Member None None (Some 1000) rls_test_db)) =
     [\<lparr>a_id = 101, a_organization_id = 1, a_table_name = ''memberships'', a_record_id = 100,
       a_action = INSERT, a_old_data = None,
       a_new_data = Some (Membership_row
         \<lparr>m_id = 100, m_user_id = 12, m_organization_id = 1, m_role = Member,
          m_invited_by = None, m_invited_at = None, m_accepted_at = Some 1000,
          m_created_at = 1000\<rparr>),
       a_changed_by = Some 12, a_changed_at = 1000\<rparr>]"
proof -
  obtain m s' where
    run: "insert_memberships (as_user 12) (Some 12) 1 Member None None (Some 1000) rls_test_db =
            (Inr m, s')"
    and m: "m = \<lparr>m_id = 100, m_user_id = 12, m_organization_id = 1, m_role = Member,
          m_invited_by = None, m_invited_at = None, m_accepted_at = Some 1000,
          m_created_at = 1000\<rparr>"
    by (simp add: insert_memberships_def rls_test_db_def as_user_def Let_def)
  have "\<forall>m s'. insert_memberships (as_user 12) (Some 12) 1 Member None None (Some 1000)
          rls_test_db = (Inr m, s') \<longrightarrow>
      audit_log s' =
        audit_log rls_test_db @
          [\<lparr>a_id = Suc (next_uuid rls_test_db), a_organization_id = m_organization_id m,
            a_table_name = ''memberships'', a_record_id = m_id m, a_action = INSERT,
            a_old_data = None, a_new_data = Some (Membership_row m),
            a_changed_by = auth_uid (as_user 12), a_changed_at = now (as_user 12)\<rparr>]"
    by (rule audited_rows_get_one_entry
      [where c = "as_user 12" and s = rls_test_db and who = "Some 12" and org = 1 and
        role = Member and ib = None and ia = None and aa = "Some 1000",
        THEN conjunct2, THEN conjunct2, THEN conjunct2, THEN conjunct2, THEN conjunct2,
        THEN conjunct2, THEN conjunct2, THEN conjunct2, THEN conjunct2, THEN conjunct2,
        THEN conjunct2, THEN conjunct2, THEN conjunct2, THEN conjunct2, THEN conjunct1])
  with run have "audit_log s' =
        audit_log rls_test_db @
          [\<lparr>a_id = Suc (next_uuid rls_test_db), a_organization_id = m_organization_id m,
            a_table_name = ''memberships'', a_record_id = m_id m, a_action = INSERT,
            a_old_data = None, a_new_data = Some (Membership_row m),
            a_changed_by = auth_uid (as_user 12), a_changed_at = now (as_user 12)\<rparr>]"
    by blast
  with run m show ?thesis
    by (simp add: rls_test_db_def as_user_def)
qed

text \<open>
  C3 as stated fails for the governed tables that have no audit trigger: a
  sale inserts a row of \<^verbatim>\<open>transactions\<close>, and the only audit entry of the call is
  that of the update of the card.
\<close>

theorem sale_record_gets_no_audit_entry:
  "transactions (snd (transaction (mark_card_sold (as_user 11) 4 (Some 24999) None None)
      rls_test_db)) =
     [\<lparr>t_id = 101, t_organization_id = 1, t_inventory_id = 4, t_sold_price = 24999,
       t_sold_at = 1000, t_sold_by = Some 11, t_buyer_email = None, t_buyer_notes = None,
       t_created_at = 1000\<rparr>] \<and>
   map (\<lambda>a. (a_table_name a, a_record_id a))
     (audit_log (snd (transaction (mark_card_sold (as_user 11) 4 (Some 24999) None None)
        rls_test_db))) = [(''inventory'', 4)]"
  by (simp add: transaction_def mark_card_sold_def insert_transactions_def update_inventory_def
      trg_inventory_audit_def trg_inventory_updated_at_def audit_trigger_def
      insert_audit_log_def rls_test_db_def as_user_def Let_def)

subsection \<open>Owners\<close>

lemma trg_organizations_audit_frame:
  "organizations (trg_organizations_audit c ev s) = organizations s"
  "memberships (trg_organizations_audit c ev s) = memberships s"
  by (cases ev;
      simp add: trg_organizations_audit_def audit_trigger_organizations_def
        insert_audit_log_frame)+

lemma update_organizations_frame:
  "organizations (update_organizations c wh f s) =
     map (\<lambda>r. if wh r then trg_organizations_updated_at c (f r) else r) (organizations s)"
  "memberships (update_organizations c wh f s) = memberships s"
  unfolding update_organizations_def
  by (simp_all add: fold_frame trg_organizations_audit_frame)

lemma owner_count_append:
  "memberships s' = memberships s @ ms \<Longrightarrow> owner_count s g \<le> owner_count s' g"
  by (simp add: owner_count_def)

lemma owner_kept_when_rows_added:
  assumes "every_organization_has_owner s"
    and "memberships s' = memberships s @ ms" and "organizations s' = organizations s"
  shows "every_organization_has_owner s'"
  using assms owner_count_append [OF assms(2)]
  unfolding every_organization_has_owner_def list_all_iff
  by (metis le_trans)

lemma owner_count_remove1:
  assumes "mine \<in> set (memberships s)" and "memberships s' = remove1 mine (memberships s)"
  shows "owner_count s' g =
           (if m_organization_id mine = g \<and> m_role mine = Owner
            then owner_count s g - 1 else owner_count s g)"
proof -
  have pos: "0 < length (filter P ys)" if "x \<in> set ys" "P x"
    for P and x :: membership and ys
    using that by (auto simp: filter_empty_conv)
  have "length (filter P (remove1 x xs)) =
      (if P x then length (filter P xs) - 1 else length (filter P xs))"
    if "x \<in> set xs" for P and x :: membership and xs
    using that
  proof (induction xs)
    case Nil
    then show ?case by simp
  next
    case (Cons a xs)
    show ?case
    proof (cases "x = a")
      case True
      then show ?thesis by simp
    next
      case False
      with Cons.prems have "x \<in> set xs" by simp
      with Cons.IH pos [OF this] False show ?thesis by auto
    qed
  qed
  from this [OF assms(1)] show ?thesis
    unfolding owner_count_def assms(2) by simp
qed

lemma leave_organization_Inr:
  assumes "leave_organization c g s = (Inr u, s')"
  shows "\<exists>mine. find (\<lambda>m. Some (m_user_id m) = auth_uid c \<and> m_organization_id m = g)
                   (memberships s) = Some mine \<and>
           (m_role mine \<noteq> Owner \<or> 1 < owner_count s g) \<and>
           s' = delete_memberships c (\<lambda>m. m_id m = m_id mine) s"
  using assms unfolding leave_organization_def owner_count_def
  by (auto split: option.splits if_splits simp: Let_def)

text \<open>
  The procedures keep every organization owned: after \<^verbatim>\<open>leave_organization\<close>,
  \<^verbatim>\<open>create_organization\<close>, \<^verbatim>\<open>accept_invite\<close>, \<^verbatim>\<open>mark_card_sold\<close> or
  \<^verbatim>\<open>soft_delete_organization\<close>, successful or not, every organization has an
  owner when every one had before.
\<close>

theorem procedures_keep_every_organization_owned:
  assumes inv: "every_organization_has_owner s"
    and pk: "distinct (map m_id (memberships s))"
  shows "every_organization_has_owner (snd (transaction (leave_organization c g) s)) \<and>
         every_organization_has_owner (snd (transaction (create_organization c nm sl) s)) \<and>
         every_organization_has_owner (snd (transaction (accept_invite c tok) s)) \<and>
         every_organization_has_owner (snd (transaction (mark_card_sold c i p be bn) s)) \<and>
         every_organization_has_owner (snd (transaction (soft_delete_organization c g) s))"
proof (intro conjI)
  show "every_organization_has_owner (snd (transaction (leave_organization c g) s))"
  proof (cases "leave_organization c g s")
    case (Pair res s1)
    show ?thesis
    proof (cases res)
      case (Inl e)
      with Pair inv show ?thesis by (simp add: transaction_def)
    next
      case (Inr u)
      with Pair have "leave_organization c g s = (Inr u, s1)" by simp
      from leave_organization_Inr [OF this] obtain mine where
        found: "find (\<lambda>m. Some (m_user_id m) = auth_uid c \<and> m_organization_id m = g)
                   (memberships s) = Some mine" and
        r: "m_role mine \<noteq> Owner \<or> 1 < owner_count s g" and
        s1: "s1 = delete_memberships c (\<lambda>m. m_id m = m_id mine) s"
        by blast
      from find_SomeD [OF found] have mine: "mine \<in> set (memberships s)"
        and who: "m_organization_id mine = g" by auto
      have ms: "memberships s1 = remove1 mine (memberships s)"
        unfolding s1 by (simp add: delete_memberships_frame delete_by_id [OF pk mine])
      have gs: "organizations s1 = organizations s"
        unfolding s1 by (simp add: delete_memberships_frame)
      have "every_organization_has_owner s1"
        using inv r who unfolding every_organization_has_owner_def list_all_iff gs
        by (auto simp: owner_count_remove1 [OF mine ms])
      with Pair Inr show ?thesis by (simp add: transaction_def)
    qed
  qed
next
  show "every_organization_has_owner (snd (transaction (create_organization c nm sl) s))"
  proof (cases "create_organization c nm sl s")
    case (Pair res s1)
    show ?thesis
    proof (cases res)
      case (Inl e)
      with Pair inv show ?thesis by (simp add: transaction_def)
    next
      case (Inr org)
      with Pair have "create_organization c nm sl s = (Inr org, s1)" by simp
      from create_organization_Inr [OF this] obtain m where
        gs: "organizations s1 = organizations s @ [org]" and
        ms: "memberships s1 = memberships s @ [m]" and
        m: "m_organization_id m = o_id org" "m_role m = Owner"
        by auto
      have "1 \<le> owner_count s1 (o_id org)"
        unfolding owner_count_def ms using m by simp
      moreover have "list_all (\<lambda>x. 1 \<le> owner_count s1 (o_id x)) (organizations s)"
        using inv owner_count_append [OF ms]
        unfolding every_organization_has_owner_def list_all_iff by (metis le_trans)
      ultimately have "every_organization_has_owner s1"
        unfolding every_organization_has_owner_def gs by simp
      with Pair Inr show ?thesis by (simp add: transaction_def)
    qed
  qed
next
  show "every_organization_has_owner (snd (transaction (accept_invite c tok) s))"
  proof (cases "accept_invite c tok s")
    case (Pair res s1)
    show ?thesis
    proof (cases res)
      case (Inl e)
      with Pair inv show ?thesis by (simp add: transaction_def)
    next
      case (Inr m)
      with Pair have "accept_invite c tok s = (Inr m, s1)" by simp
      from accept_invite_Inr [OF this] have
        "memberships s1 = memberships s @ [m]" "organizations s1 = organizations s"
        by auto
      from owner_kept_when_rows_added [OF inv this] Pair Inr
      show ?thesis by (simp add: transaction_def)
    qed
  qed
next
  show "every_organization_has_owner (snd (transaction (mark_card_sold c i p be bn) s))"
  proof (cases "mark_card_sold c i p be bn s")
    case (Pair res s1)
    show ?thesis
    proof (cases res)
      case (Inl e)
      with Pair inv show ?thesis by (simp add: transaction_def)
    next
      case (Inr t)
      with Pair have "mark_card_sold c i p be bn s = (Inr t, s1)" by simp
      from mark_card_sold_Inr [OF this] have
        "memberships s1 = memberships s @ []" "organizations s1 = organizations s"
        by auto
      from owner_kept_when_rows_added [OF inv this] Pair Inr
      show ?thesis by (simp add: transaction_def)
    qed
  qed
next
  show "every_organization_has_owner (snd (transaction (soft_delete_organization c g) s))"
    using inv
    by (auto simp: transaction_def soft_delete_organization_def Let_def
        every_organization_has_owner_def owner_count_def update_organizations_frame
        trg_organizations_updated_at_def list_all_iff)
qed


theorem procedures_keep_every_organization_owned_witness:
  "every_organization_has_owner rls_test_db \<and>
   every_organization_has_owner
     (snd (transaction (leave_organization (as_user 11) 1) rls_test_db)) \<and>
   every_organization_has_owner
     (snd (transaction (create_organization (as_user 12) (Some ''Moody Cards'')
        (Some ''moody-cards'')) rls_test_db))"
proof -
  have h: "every_organization_has_owner rls_test_db"
    by (simp add: every_organization_has_owner_def owner_count_def rls_test_db_def)
  have pk: "distinct (map m_id (memberships rls_test_db))"
    by (simp add: rls_test_db_def)
  from procedures_keep_every_organization_owned [OF h pk] h show ?thesis by blast
qed

text \<open>
  C2. The orphan prevention of \<^verbatim>\<open>leave_organization\<close> has no counterpart in the
  policy \<^verbatim>\<open>"Owners update roles"\<close>. In the database of the policy tests the only
  owner may not leave, yet his own \<^verbatim>\<open>UPDATE memberships SET role = 'member'\<close> is
  admitted, and leaves the organization, which is not deleted, with no owner.
\<close>

theorem sole_owner_can_demote_himself:
  "every_organization_has_owner rls_test_db \<and>
   transaction (leave_organization (as_user 10) 1) rls_test_db =
     (Inl Cannot_leave_only_owner, rls_test_db) \<and>
   fst (transaction
          (client_update_memberships (as_user 10) (\<lambda>m. m_id m = 2) (\<lambda>m. m\<lparr>m_role := Member\<rparr>))
          rls_test_db) = Inr () \<and>
   map m_role
     (memberships (snd (transaction
          (client_update_memberships (as_user 10) (\<lambda>m. m_id m = 2) (\<lambda>m. m\<lparr>m_role := Member\<rparr>))
          rls_test_db))) = [Member, Member] \<and>
   map o_deleted_at
     (organizations (snd (transaction
          (client_update_memberships (as_user 10) (\<lambda>m. m_id m = 2) (\<lambda>m. m\<lparr>m_role := Member\<rparr>))
          rls_test_db))) = [None] \<and>
   owner_count
     (snd (transaction
          (client_update_memberships (as_user 10) (\<lambda>m. m_id m = 2) (\<lambda>m. m\<lparr>m_role := Member\<rparr>))
          rls_test_db)) 1 = 0 \<and>
   \<not> every_organization_has_owner
       (snd (transaction
          (client_update_memberships (as_user 10) (\<lambda>m. m_id m = 2) (\<lambda>m. m\<lparr>m_role := Member\<rparr>))
          rls_test_db))"
  by (simp add: every_organization_has_owner_def owner_count_def transaction_def
      leave_organization_def client_update_memberships_def update_memberships_def
      memberships_update_using_def memberships_select_def get_user_org_ids_def
      is_org_owner_def trg_memberships_audit_def
      audit_trigger_def insert_audit_log_def rls_test_db_def as_user_def Let_def)

subsection \<open>Soft-deleted organizations and the row policies\<close>

lemma soft_deleted_not_in_get_user_org_ids:
  assumes del: "soft_deleted s g" and pk: "distinct (map o_id (organizations s))"
  shows "g \<notin> set (get_user_org_ids c s)"
proof
  assume "g \<in> set (get_user_org_ids c s)"
  then obtain live where live: "live \<in> set (organizations s)" "o_id live = g"
    "o_deleted_at live = None"
    unfolding get_user_org_ids_def by auto
  from del obtain gone where gone: "gone \<in> set (organizations s)" "o_id gone = g"
    "o_deleted_at gone \<noteq> None"
    unfolding soft_deleted_def by auto
  from distinct_map_eq [OF pk live(1) gone(1)] live(2) gone(2) have "live = gone" by simp
  with live(3) gone(3) show False by simp
qed

text \<open>
  Where a policy goes through \<^verbatim>\<open>get_user_org_ids()\<close>, or tests \<^verbatim>\<open>deleted_at\<close>
  of the organization's own row, the rows of a soft-deleted organization are
  denied to everybody: the organization's row for every command, memberships
  but for \<^verbatim>\<open>UPDATE\<close>, inventory but for \<^verbatim>\<open>DELETE\<close>, and transactions.
\<close>

theorem soft_deleted_hidden_where_policies_use_get_user_org_ids:
  assumes del: "soft_deleted s g" and pk: "distinct (map o_id (organizations s))"
  shows "(r \<in> set (organizations s) \<and> o_id r = g \<longrightarrow>
            \<not> policy_admits c s cmd (Organizations r)) \<and>
         (m_organization_id m = g \<and> cmd \<noteq> Update \<longrightarrow>
            \<not> policy_admits c s cmd (Memberships m)) \<and>
         (i_organization_id i = g \<and> cmd \<noteq> Delete \<longrightarrow>
            \<not> policy_admits c s cmd (Inventory i)) \<and>
         (t_organization_id t = g \<longrightarrow> \<not> policy_admits c s cmd (Transactions t))"
proof -
  note hidden = soft_deleted_not_in_get_user_org_ids [OF del pk, of c]
  have "o_deleted_at r \<noteq> None" if "r \<in> set (organizations s)" "o_id r = g"
  proof -
    from del obtain gone where gone: "gone \<in> set (organizations s)" "o_id gone = g"
      "o_deleted_at gone \<noteq> None"
      unfolding soft_deleted_def by auto
    from distinct_map_eq [OF pk that(1) gone(1)] that(2) gone(2) have "r = gone" by simp
    with gone(3) show ?thesis by simp
  qed
  with hidden show ?thesis
    by (cases cmd)
      (auto simp: organizations_select_def organizations_insert_check_def
        organizations_update_using_def memberships_select_def memberships_insert_check_def
        memberships_delete_using_def inventory_select_def inventory_insert_check_def
        inventory_update_using_def transactions_select_def transactions_insert_check_def)
qed

theorem soft_deleted_hidden_where_policies_use_get_user_org_ids_witness:
  "soft_deleted soft_deleted_test_db 1 \<and>
   \<not> policy_admits (as_user 10) soft_deleted_test_db Select
       (Inventory \<lparr>i_id = 4, i_organization_id = 1, i_card_name = ''Test Card'',
                    i_status = Available, i_updated_at = 0, i_updated_by = None,
                    i_deleted_at = None\<rparr>) \<and>
   \<not> policy_admits (as_user 10) soft_deleted_test_db Select
       (Memberships \<lparr>m_id = 3, m_user_id = 11, m_organization_id = 1, m_role = Member,
                      m_invited_by = None, m_invited_at = None, m_accepted_at = Some 0,
                      m_created_at = 0\<rparr>)"
proof -
  have del: "soft_deleted soft_deleted_test_db 1"
    by (simp add: soft_deleted_def soft_deleted_test_db_def rls_test_db_def)
  have pk: "distinct (map o_id (organizations soft_deleted_test_db))"
    by (simp add: soft_deleted_test_db_def rls_test_db_def)
  from soft_deleted_hidden_where_policies_use_get_user_org_ids
    [OF del pk, where cmd = Select and c = "as_user 10"] del
  show ?thesis by simp
qed

text \<open>
  The \<^verbatim>\<open>inventory_images\<close> policies read \<^verbatim>\<open>memberships\<close> under its \<^verbatim>\<open>SELECT\<close>
  policy, which goes through \<^verbatim>\<open>get_user_org_ids()\<close>: an image of a soft-deleted
  organization is denied to everybody for \<^verbatim>\<open>SELECT\<close>, \<^verbatim>\<open>INSERT\<close> and \<^verbatim>\<open>UPDATE\<close>,
  and its \<^verbatim>\<open>DELETE\<close> expression is true for the user who uploaded it, by
  \<^verbatim>\<open>created_by = auth.uid()\<close>, and for nobody else.
\<close>

theorem soft_deleted_hides_inventory_images:
  assumes del: "soft_deleted s g" and pk: "distinct (map o_id (organizations s))"
    and org: "g_organization_id r = g"
  shows "\<not> policy_admits c s Select (Inventory_images r) \<and>
         \<not> policy_admits c s Insert (Inventory_images r) \<and>
         \<not> policy_admits c s Update (Inventory_images r) \<and>
         (policy_admits c s Delete (Inventory_images r) \<longleftrightarrow>
            g_created_by r \<noteq> None \<and> g_created_by r = auth_uid c)"
  using soft_deleted_not_in_get_user_org_ids [OF del pk, of c] org
  by (auto simp: inventory_images_select_def inventory_images_insert_def
      inventory_images_update_def inventory_images_delete_def memberships_select_def)

theorem soft_deleted_hides_inventory_images_witness:
  "soft_deleted soft_deleted_test_db 1 \<and>
   \<not> policy_admits (as_user 11) soft_deleted_test_db Select
       (Inventory_images \<lparr>g_id = 7, g_inventory_id = 4, g_organization_id = 1,
                           g_storage_path = ''cards/4.png'', g_created_by = Some 11\<rparr>) \<and>
   \<not> policy_admits (as_user 10) soft_deleted_test_db Delete
       (Inventory_images \<lparr>g_id = 7, g_inventory_id = 4, g_organization_id = 1,
                           g_storage_path = ''cards/4.png'', g_created_by = Some 11\<rparr>) \<and>
   policy_admits (as_user 11) soft_deleted_test_db Delete
     (Inventory_images \<lparr>g_id = 7, g_inventory_id = 4, g_organization_id = 1,
                         g_storage_path = ''cards/4.png'', g_created_by = Some 11\<rparr>) \<and>
   policy_admits (as_user 11) rls_test_db Select
     (Inventory_images \<lparr>g_id = 7, g_inventory_id = 4, g_organization_id = 1,
                         g_storage_path = ''cards/4.png'', g_created_by = Some 11\<rparr>) \<and>
   policy_admits (as_user 10) rls_test_db Delete
     (Inventory_images \<lparr>g_id = 7, g_inventory_id = 4, g_organization_id = 1,
                         g_storage_path = ''cards/4.png'', g_created_by = Some 11\<rparr>)"
proof -
  let ?r = "\<lparr>g_id = 7, g_inventory_id = 4, g_organization_id = 1,
             g_storage_path = ''cards/4.png'', g_created_by = Some 11\<rparr>"
  have del: "soft_deleted soft_deleted_test_db 1"
    by (simp add: soft_deleted_def soft_deleted_test_db_def rls_test_db_def)
  have pk: "distinct (map o_id (organizations soft_deleted_test_db))"
    by (simp add: soft_deleted_test_db_def rls_test_db_def)
  have org: "g_organization_id ?r = 1" by simp
  have live: "policy_admits (as_user 11) rls_test_db Select (Inventory_images ?r)"
    "policy_admits (as_user 10) rls_test_db Delete (Inventory_images ?r)"
    by (simp_all add: inventory_images_select_def inventory_images_delete_def
        memberships_select_def get_user_org_ids_def rls_test_db_def as_user_def)
  from soft_deleted_hides_inventory_images [OF del pk org, of "as_user 11"]
    soft_deleted_hides_inventory_images [OF del pk org, of "as_user 10"] del live
  show ?thesis by (simp add: as_user_def)
qed

text \<open>
  C8. The policies that call \<^verbatim>\<open>is_org_admin_or_owner\<close> or \<^verbatim>\<open>is_org_owner\<close> do
  not read the marker. After the organization of the policy tests is
  soft-deleted, the policy \<^verbatim>\<open>"Admins manage"\<close> still admits its owner to select,
  insert, update and delete its invites, and \<^verbatim>\<open>"Admins view"\<close> to read its
  audit log; the expressions of \<^verbatim>\<open>"Owners update roles"\<close> and of \<^verbatim>\<open>"Admins
  delete"\<close> are true as well of its memberships and of its card, which an
  \<^verbatim>\<open>UPDATE\<close> or \<^verbatim>\<open>DELETE\<close> with no \<^verbatim>\<open>WHERE\<close> therefore reaches, while the
  \<^verbatim>\<open>SELECT\<close> policy hides the card from the same caller.
\<close>

theorem soft_deleted_rows_still_admitted:
  "soft_deleted soft_deleted_test_db 1 \<and>
   policy_admits (as_user 10) soft_deleted_test_db Select (Invites test_invite) \<and>
   policy_admits (as_user 10) soft_deleted_test_db Insert (Invites test_invite) \<and>
   policy_admits (as_user 10) soft_deleted_test_db Update (Invites test_invite) \<and>
   policy_admits (as_user 10) soft_deleted_test_db Delete (Invites test_invite) \<and>
   policy_admits (as_user 10) soft_deleted_test_db Select
     (Audit_log \<lparr>a_id = 6, a_organization_id = 1, a_table_name = ''inventory'', a_record_id = 4,
                  a_action = INSERT, a_old_data = None, a_new_data = None, a_changed_by = None,
                  a_changed_at = 0\<rparr>) \<and>
   policy_admits (as_user 10) soft_deleted_test_db Update
     (Memberships \<lparr>m_id = 3, m_user_id = 11, m_organization_id = 1, m_role = Member,
                    m_invited_by = None, m_invited_at = None, m_accepted_at = Some 0,
                    m_created_at = 0\<rparr>) \<and>
   policy_admits (as_user 10) soft_deleted_test_db Delete
     (Inventory \<lparr>i_id = 4, i_organization_id = 1, i_card_name = ''Test Card'',
                  i_status = Available, i_updated_at = 0, i_updated_by = None,
                  i_deleted_at = None\<rparr>) \<and>
   \<not> policy_admits (as_user 10) soft_deleted_test_db Select
       (Inventory \<lparr>i_id = 4, i_organization_id = 1, i_card_name = ''Test Card'',
                    i_status = Available, i_updated_at = 0, i_updated_by = None,
                    i_deleted_at = None\<rparr>)"
  by (simp add: soft_deleted_def invites_all_def audit_log_select_def
      memberships_update_using_def inventory_delete_using_def inventory_select_def
      get_user_org_ids_def
      is_org_admin_or_owner_def is_org_owner_def
      soft_deleted_test_db_def rls_test_db_def test_invite_def as_user_def)

end
